theory Spec2Isabelle
  imports Complex_Main "HOL-Library.AList" "HOL-Library.Multiset"
begin

section \<open>The batch-analysis page of the CV Analyzer dashboard (src/app.py, lines 350-515)\<close>

text \<open>
  The page is Streamlit glue around three external collaborators: the \<open>CVAnalyzer\<close>,
  pandas/xlsxwriter and the operating system. None of them is part of the source, so each
  call into them is a field of the record \<open>env\<close> below; the page itself is translated
  statement by statement. Exceptions are values: a step that can raise returns the message
  of the exception (\<open>Some msg\<close>, or \<open>Inl msg\<close>).

  Numbers are exact rationals, dates are day numbers, and a Python dict with the keys the
  page reads is a record with one optional field per key (\<open>None\<close>: the key is absent).
\<close>

subsection \<open>Data\<close>

type_synonym path = string

text \<open>One element of \<open>result["experience"]\<close>. The key \<open>duration\<close> is the one the
  batch overview reads with \<open>exp.get("duration", 0)\<close> (line 423).\<close>

record experience_entry =
  title :: string
  company :: string
  start_date :: int
  end_date :: int
  duration :: "rat option"

text \<open>The dict returned by \<open>analyzer.analyze_cv_file\<close>; \<open>filename\<close> is the key the page
  adds (line 400).\<close>

record analysis_result =
  filename :: "string option"
  profession :: "string option"
  experience_level :: "string option"
  relevance_score :: "rat option"
  skills :: "(string \<times> rat) list option"
  experience :: "experience_entry list option"
  missing_skills :: "(string \<times> rat) list option"
  recommendations :: "string list option"

text \<open>An element of \<open>uploaded_files\<close>: \<open>.name\<close> and \<open>.getvalue()\<close>.\<close>

record uploaded_file =
  up_name :: string
  up_bytes :: string

text \<open>One dict of \<open>overview_data\<close> (lines 417-424), a row of \<open>overview_df\<close>.\<close>

record overview_row =
  Dateiname :: string
  Beruf :: string
  Erfahrungslevel :: string
  Relevanz_Score :: rat
  Anzahl_Faehigkeiten :: nat
  Berufserfahrung_Jahre :: rat

datatype sheet =
    Overview_Sheet "overview_row list"
  | Skills_Sheet "(string \<times> rat) list"
  | Experience_Sheet "experience_entry list"

type_synonym workbook = "(string \<times> sheet) list"

text \<open>
  The collaborators.
  \<^item> \<open>tmp_name fs suffix\<close>: the name \<open>tempfile.NamedTemporaryFile(delete=False, suffix=...)\<close>
    picks when the files \<open>fs\<close> exist; the file is created at once.
  \<^item> \<open>tmp_write u\<close>: \<open>tmp.write(uploaded_file.getvalue())\<close>; \<open>Some msg\<close> when it raises.
  \<^item> \<open>analyze_cv_file p j\<close>: the analyzer, called with the job description (\<open>Some\<close>) or
    without it (\<open>None\<close>); \<open>Inl msg\<close> when it raises.
  \<^item> \<open>sort_values rows\<close>: \<open>overview_df.sort_values("Relevanz-Score", ascending=False)\<close>,
    called with pandas' default \<open>kind\<close>.
  \<^item> \<open>json_dumps\<close>: \<open>json.dumps(..., indent=2)\<close>.
  \<^item> \<open>writer_opens_file\<close>: whether \<open>pd.ExcelWriter(path)\<close> already creates the file
    (recent pandas open the handle in the constructor; xlsxwriter alone writes at close).
  \<^item> \<open>to_excel\<close>, \<open>writer_close\<close>, \<open>read_back\<close>: \<open>df.to_excel\<close>, \<open>excel_buffer.close()\<close>
    and the \<open>open(...).read()\<close> of lines 495-496; \<open>Some msg\<close> when they raise.
\<close>

record env =
  tmp_name :: "path set \<Rightarrow> string \<Rightarrow> path"
  tmp_write :: "uploaded_file \<Rightarrow> string option"
  analyze_cv_file :: "path \<Rightarrow> string option \<Rightarrow> string + analysis_result"
  sort_values :: "overview_row list \<Rightarrow> overview_row list"
  json_dumps :: "analysis_result list \<Rightarrow> string"
  writer_opens_file :: bool
  to_excel :: "string \<times> sheet \<Rightarrow> string option"
  writer_close :: "string option"
  read_back :: "string option"

text \<open>The variables of one run of the page, the file system (the set of paths that
  exist) and what the run reported: the \<open>os.unlink\<close> calls, the analyzer calls, the
  \<open>st.error\<close> messages and the contexts passed to \<open>debugger.log_error\<close>.\<close>

record page =
  fs :: "path set"
  unlink_log :: "path list"
  temp_files :: "(path \<times> string) list"
  calls :: "(path \<times> string option) list"
  st_errors :: "string list"
  logged :: "string list"
  all_results :: "analysis_result list"
  overview_df :: "overview_row list option"
  ranking_df :: "(nat \<times> overview_row) list option"
  top_candidates :: "(nat \<times> overview_row) list option"
  json_batch_data :: "string option"
  excel_data :: "workbook option"

datatype status = Completed | Raised string

subsection \<open>Small Python idioms\<close>

text \<open>\<open>d.get(key, default)\<close>.\<close>

definition dict_get :: "'a option \<Rightarrow> 'a \<Rightarrow> 'a" where
  "dict_get v d = (case v of None \<Rightarrow> d | Some x \<Rightarrow> x)"

text \<open>\<open>if job_description:\<close> is false for \<open>None\<close> and for the empty string.\<close>

definition truthy :: "string option \<Rightarrow> bool" where
  "truthy j = (case j of None \<Rightarrow> False | Some t \<Rightarrow> t \<noteq> [])"

text \<open>\<open>name.split('.')[-1]\<close>: what follows the last dot, the whole name without one.\<close>

definition extension :: "string \<Rightarrow> string" where
  "extension n = rev (takeWhile (\<lambda>c. c \<noteq> CHR ''.'') (rev n))"

text \<open>\<open>sum(...)\<close> adds from the left, starting at 0.\<close>

definition py_sum :: "rat list \<Rightarrow> rat" where
  "py_sum xs = foldl (+) 0 xs"

text \<open>The decimal digits of \<open>i\<close>, as an f-string prints an int.\<close>

definition digit_char :: "nat \<Rightarrow> char" where
  "digit_char d = ''0123456789'' ! d"

fun str_nat :: "nat \<Rightarrow> string" where
  "str_nat n = (if n < 10 then [digit_char n] else str_nat (n div 10) @ [digit_char (n mod 10)])"

declare str_nat.simps [simp del]

text \<open>\<open>os.unlink(p)\<close>.\<close>

definition unlink :: "path \<Rightarrow> page \<Rightarrow> page" where
  "unlink p s = s\<lparr>fs := fs s - {p}, unlink_log := unlink_log s @ [p]\<rparr>"

subsection \<open>Saving the uploads (lines 372-375)\<close>

text \<open>The temporary file exists as soon as it is opened; its name is appended to
  \<open>temp_files\<close> only after the write, so a write that raises leaves the loop with the
  file on disk and not in the list.\<close>

fun save_uploads :: "env \<Rightarrow> uploaded_file list \<Rightarrow> page \<Rightarrow> status \<times> page" where
  "save_uploads e [] s = (Completed, s)"
| "save_uploads e (u # us) s =
     (let p = tmp_name e (fs s) (CHR ''.'' # extension (up_name u));
          s1 = s\<lparr>fs := insert p (fs s)\<rparr>
      in case tmp_write e u of
           Some msg \<Rightarrow> (Raised msg, s1)
         | None \<Rightarrow> save_uploads e us (s1\<lparr>temp_files := temp_files s1 @ [(p, up_name u)]\<rparr>))"

subsection \<open>The analysis loop (lines 388-405)\<close>

definition analyze_one :: "env \<Rightarrow> string option \<Rightarrow> path \<times> string \<Rightarrow> page \<Rightarrow> page" where
  "analyze_one e job t s =
     (let temp_path = fst t; original_name = snd t;
          arg = (if truthy job then job else None);
          s1 = s\<lparr>calls := calls s @ [(temp_path, arg)]\<rparr>
      in case analyze_cv_file e temp_path arg of
           Inr result \<Rightarrow>
             s1\<lparr>all_results := all_results s1 @ [result\<lparr>filename := Some original_name\<rparr>]\<rparr>
         | Inl msg \<Rightarrow>
             s1\<lparr>st_errors := st_errors s1 @ [''Fehler bei der Analyse von '' @ original_name @ '': '' @ msg],
                logged := logged s1 @ [''batch_analysis_'' @ original_name]\<rparr>)"

fun analysis_loop :: "env \<Rightarrow> string option \<Rightarrow> (path \<times> string) list \<Rightarrow> page \<Rightarrow> page" where
  "analysis_loop e job [] s = s"
| "analysis_loop e job (t # ts) s = analysis_loop e job ts (analyze_one e job t s)"

subsection \<open>The overview table (lines 415-427)\<close>

definition total_experience :: "analysis_result \<Rightarrow> rat" where
  "total_experience r = py_sum (map (\<lambda>ex. dict_get (duration ex) 0) (dict_get (experience r) []))"

definition overview_of :: "analysis_result \<Rightarrow> overview_row" where
  "overview_of r =
     \<lparr>Dateiname = dict_get (filename r) ''Unbekannt'',
      Beruf = dict_get (profession r) ''Nicht erkannt'',
      Erfahrungslevel = dict_get (experience_level r) ''Nicht erkannt'',
      Relevanz_Score = dict_get (relevance_score r) 0,
      Anzahl_Faehigkeiten = length (dict_get (skills r) []),
      Berufserfahrung_Jahre = total_experience r\<rparr>"

text \<open>The duration column of the single-CV page (line 131):
  \<open>(end_date - start_date).dt.days / 365.25\<close>.\<close>

definition date_duration :: "experience_entry \<Rightarrow> rat" where
  "date_duration ex = of_int (end_date ex - start_date ex) / 365.25"

subsection \<open>Ranking (lines 432-445)\<close>

text \<open>\<open>reset_index(drop=True)\<close> numbers the sorted rows from 0, and line 438 adds 1.\<close>

definition reindex :: "overview_row list \<Rightarrow> (nat \<times> overview_row) list" where
  "reindex rows = zip (map (\<lambda>i. i + 1) [0..<length rows]) rows"

definition head_df :: "nat \<Rightarrow> 'a list \<Rightarrow> 'a list" where
  "head_df n rows = take n rows"

definition rank :: "env \<Rightarrow> overview_row list \<Rightarrow> page \<Rightarrow> page" where
  "rank e ov s =
     (let ranking = reindex (sort_values e ov)
      in s\<lparr>ranking_df := Some ranking,
           top_candidates := Some (head_df (min 3 (length ranking)) ranking)\<rparr>)"

subsection \<open>The spreadsheet (lines 474-505)\<close>

definition xlsx :: path where
  "xlsx = ''batch_analysis.xlsx''"

text \<open>\<open>"skills" in result and result["skills"]\<close>, and the same for \<open>experience\<close>.\<close>

definition has_skills :: "analysis_result \<Rightarrow> bool" where
  "has_skills r = (case skills r of None \<Rightarrow> False | Some sk \<Rightarrow> sk \<noteq> [])"

definition has_experience :: "analysis_result \<Rightarrow> bool" where
  "has_experience r = (case experience r of None \<Rightarrow> False | Some es \<Rightarrow> es \<noteq> [])"

text \<open>The sheet names of the source; \<open>\<Uuml>\<close> is written as its two UTF-8 bytes.\<close>

definition overview_sheet_name :: string where
  "overview_sheet_name = CHR 0xC3 # CHR 0x9C # ''bersicht''"

definition skills_sheet_name :: "nat \<Rightarrow> string" where
  "skills_sheet_name i = ''Kandidat_'' @ str_nat (i + 1) @ ''_Skills''"

definition experience_sheet_name :: "nat \<Rightarrow> string" where
  "experience_sheet_name i = ''Kandidat_'' @ str_nat (i + 1) @ ''_Erfahrung''"

text \<open>\<open>df.to_excel(excel_buffer, sheet_name=...)\<close>: the writer holds one worksheet per
  name, so a name that is already there is written over and a new one is added last.\<close>

definition to_excel_step :: "env \<Rightarrow> string \<times> sheet \<Rightarrow> workbook \<Rightarrow> string + workbook" where
  "to_excel_step e sh wb =
     (case to_excel e sh of
        Some msg \<Rightarrow> Inl msg
      | None \<Rightarrow> Inr (AList.update (fst sh) (snd sh) wb))"

fun write_candidates :: "env \<Rightarrow> nat \<Rightarrow> analysis_result list \<Rightarrow> workbook \<Rightarrow> string + workbook" where
  "write_candidates e i [] wb = Inr wb"
| "write_candidates e i (r # rs) wb =
     (case (if has_skills r
            then to_excel_step e (skills_sheet_name i, Skills_Sheet (dict_get (skills r) [])) wb
            else Inr wb) of
        Inl msg \<Rightarrow> Inl msg
      | Inr wb1 \<Rightarrow>
          (case (if has_experience r
                 then to_excel_step e
                        (experience_sheet_name i, Experience_Sheet (dict_get (experience r) [])) wb1
                 else Inr wb1) of
             Inl msg \<Rightarrow> Inl msg
           | Inr wb2 \<Rightarrow> write_candidates e (Suc i) rs wb2))"

definition write_workbook :: "env \<Rightarrow> overview_row list \<Rightarrow> analysis_result list \<Rightarrow> string + workbook" where
  "write_workbook e ov rs =
     (case to_excel_step e (overview_sheet_name, Overview_Sheet ov) [] of
        Inl msg \<Rightarrow> Inl msg
      | Inr wb \<Rightarrow> write_candidates e 0 rs wb)"

definition excel_export :: "env \<Rightarrow> overview_row list \<Rightarrow> page \<Rightarrow> status \<times> page" where
  "excel_export e ov s =
     (let s1 = (if writer_opens_file e then s\<lparr>fs := insert xlsx (fs s)\<rparr> else s)
      in case write_workbook e ov (all_results s) of
           Inl msg \<Rightarrow> (Raised msg, s1)
         | Inr wb \<Rightarrow>
             (case writer_close e of
                Some msg \<Rightarrow> (Raised msg, s1)
              | None \<Rightarrow>
                  (let s2 = s1\<lparr>fs := insert xlsx (fs s1)\<rparr>
                   in case read_back e of
                        Some msg \<Rightarrow> (Raised msg, s2)
                      | None \<Rightarrow>
                          (let s3 = s2\<lparr>excel_data := Some wb\<rparr>
                           in (Completed, if xlsx \<in> fs s3 then unlink xlsx s3 else s3)))))"

subsection \<open>The page (lines 367-515)\<close>

definition new_page :: "path set \<Rightarrow> page" where
  "new_page files =
     \<lparr>fs = files, unlink_log = [], temp_files = [], calls = [], st_errors = [], logged = [],
      all_results = [], overview_df = None, ranking_df = None, top_candidates = None,
      json_batch_data = None, excel_data = None\<rparr>"

text \<open>The body of the \<open>try\<close>.\<close>

definition batch_body :: "env \<Rightarrow> uploaded_file list \<Rightarrow> string option \<Rightarrow> page \<Rightarrow> status \<times> page" where
  "batch_body e ups job s =
     (case save_uploads e ups s of
        (Raised msg, s1) \<Rightarrow> (Raised msg, s1)
      | (Completed, s1) \<Rightarrow>
          (let s2 = analysis_loop e job (temp_files s1) s1
           in if all_results s2 = [] then (Completed, s2)
              else
                (let ov = map overview_of (all_results s2);
                     s3 = s2\<lparr>overview_df := Some ov\<rparr>;
                     s4 = (if truthy job then rank e ov s3 else s3);
                     s5 = s4\<lparr>json_batch_data := Some (json_dumps e (all_results s4))\<rparr>
                 in excel_export e ov s5)))"

text \<open>The \<open>finally\<close> (lines 511-515).\<close>

fun cleanup :: "(path \<times> string) list \<Rightarrow> page \<Rightarrow> page" where
  "cleanup [] s = s"
| "cleanup (t # ts) s = cleanup ts (if fst t \<in> fs s then unlink (fst t) s else s)"

text \<open>The handler of the button: nothing runs without an upload; a batch-level exception
  is reported once (lines 507-509) and the \<open>finally\<close> runs on both paths.\<close>

definition batch_page :: "env \<Rightarrow> uploaded_file list \<Rightarrow> string option \<Rightarrow> path set \<Rightarrow> page" where
  "batch_page e ups job files =
     (if ups = [] then new_page files
      else
        (case batch_body e ups job (new_page files) of
           (Completed, s) \<Rightarrow> cleanup (temp_files s) s
         | (Raised msg, s) \<Rightarrow>
             cleanup (temp_files s)
               (s\<lparr>st_errors := st_errors s @ [''Fehler bei der Batch-Analyse: '' @ msg],
                  logged := logged s @ [''batch_analysis'']\<rparr>)))"

subsection \<open>What the claims speak about\<close>

text \<open>The result a document contributes: the analyzer's dict with the original file name
  added, or nothing when the analyzer raises. The analyzer is called as the loop calls it.\<close>

definition tagged_result :: "env \<Rightarrow> string option \<Rightarrow> path \<times> string \<Rightarrow> analysis_result option" where
  "tagged_result e job t =
     (case analyze_cv_file e (fst t) (if truthy job then job else None) of
        Inl msg \<Rightarrow> None
      | Inr result \<Rightarrow> Some (result\<lparr>filename := Some (snd t)\<rparr>))"

definition analysis_fails :: "env \<Rightarrow> string option \<Rightarrow> path \<times> string \<Rightarrow> bool" where
  "analysis_fails e job t = isl (analyze_cv_file e (fst t) (if truthy job then job else None))"

subsection \<open>A concrete environment\<close>

text \<open>Temporary names are numbered by the files that exist, a \<open>.docx\<close> cannot be read,
  the relevance score (given only with a job description) is the length of the path, and
  every other step succeeds. The sort is the stable one, descending.\<close>

definition demo_tmp_name :: "path set \<Rightarrow> string \<Rightarrow> path" where
  "demo_tmp_name files suffix = ''/tmp/tmp'' @ replicate (card files) (CHR ''x'') @ suffix"

definition demo_entry :: "int \<Rightarrow> int \<Rightarrow> rat option \<Rightarrow> experience_entry" where
  "demo_entry a b d =
     \<lparr>title = ''Engineer'', company = ''ACME'', start_date = a, end_date = b, duration = d\<rparr>"

definition demo_result :: "rat option \<Rightarrow> analysis_result" where
  "demo_result sc =
     \<lparr>filename = None, profession = Some ''Engineer'', experience_level = None,
      relevance_score = sc, skills = Some [(''python'', 9)],
      experience = Some [demo_entry 0 1461 (Some 4)], missing_skills = None,
      recommendations = Some []\<rparr>"

definition demo_analyze :: "path \<Rightarrow> string option \<Rightarrow> string + analysis_result" where
  "demo_analyze p j =
     (if extension p = ''docx'' then Inl ''unreadable document''
      else Inr (demo_result (case j of None \<Rightarrow> None | Some d \<Rightarrow> Some (of_nat (length p)))))"

definition demo_env :: env where
  "demo_env =
     \<lparr>tmp_name = demo_tmp_name, tmp_write = (\<lambda>u. None), analyze_cv_file = demo_analyze,
      sort_values = (\<lambda>rows. sort_key (\<lambda>r. - Relevanz_Score r) rows),
      json_dumps = (\<lambda>rs. ''[]''), writer_opens_file = True, to_excel = (\<lambda>sh. None),
      writer_close = None, read_back = None\<rparr>"

definition demo_uploads :: "uploaded_file list" where
  "demo_uploads =
     [\<lparr>up_name = ''a.pdf'', up_bytes = ''A''\<rparr>, \<lparr>up_name = ''b.docx'', up_bytes = ''B''\<rparr>,
      \<lparr>up_name = ''c.pdf'', up_bytes = ''C''\<rparr>]"

subsection \<open>Total experience as the specification words it\<close>

text \<open>The specification's total: the sum of the date differences in days over 365.25. It
  is written down to be compared with \<open>total_experience\<close>; the page does not compute it.
  \<open>dates_only_result\<close> is a result whose one experience entry (four years, 1461 days)
  carries the four keys of the specification's data model and no \<open>duration\<close>.\<close>

definition dates_only_result :: analysis_result where
  "dates_only_result = (demo_result None)\<lparr>experience := Some [demo_entry 0 1461 None]\<rparr>"

definition claimed_total_experience :: "analysis_result \<Rightarrow> rat" where
  "claimed_total_experience r = sum_list (map date_duration (dict_get (experience r) []))"

subsection \<open>Ranking as the specification words it\<close>


definition descending :: "overview_row list \<Rightarrow> bool" where
  "descending rows = sorted_wrt (\<lambda>a b. Relevanz_Score b \<le> Relevanz_Score a) rows"

definition two_uploads :: "uploaded_file list" where
  "two_uploads = [\<lparr>up_name = ''a.pdf'', up_bytes = ''A''\<rparr>, \<lparr>up_name = ''b.pdf'', up_bytes = ''B''\<rparr>]"

definition demo_row :: "string \<Rightarrow> rat \<Rightarrow> overview_row" where
  "demo_row n sc = \<lparr>Dateiname = n, Beruf = ''Engineer'', Erfahrungslevel = ''Nicht erkannt'',
      Relevanz_Score = sc, Anzahl_Faehigkeiten = 1, Berufserfahrung_Jahre = 4\<rparr>"

subsection \<open>The library's sort of a short table on x86-64\<close>

text \<open>
  Modelled from the libraries' sources, none of which is code of the repository. Line 436
  passes no \<open>kind\<close>, so pandas sorts with its default, \<open>quicksort\<close>, which its
  documentation lists among the kinds that are not stable. What then happens to rows of equal
  score is decided two libraries down; it is written out here for tables of at most four
  rows.

  \<^item> pandas (\<open>core/sorting.py\<close>, \<open>nargsort\<close>) sorts descending by reversing the keys
    together with their row numbers, taking numpy's ascending \<open>argsort\<close> of the reversed
    keys, and reversing the outcome: \<open>nargsort\<close> below.
  \<^item> numpy 2 on x86-64 processors with AVX2 hands the \<open>argsort\<close> of 64-bit keys to
    its vectorised kernel (\<open>x86-simd-sort\<close>). Up to four keys fill one register of
    four lanes, the missing lanes holding the largest value (\<open>None\<close> below), and are sorted
    together with their indices by a bitonic network of three steps (\<open>sort_ymm_64bit\<close>):
    every lane is compared with its neighbour, then with its mirror image, then with its
    neighbour again. In a step (\<open>cmp_merge\<close>) a lane receives the smaller or the larger of
    its own key and its partner's, as the mask of the step says, and keeps its own index
    exactly when the key it receives equals its own.

  A longer table takes several registers and a merge phase, which is not written out:
  \<open>argsort\<close> is \<open>None\<close> there. Builds of numpy without the vectorised kernel sort up to 16
  keys by insertion, which keeps equal keys in place; the order of tied rows therefore
  depends on the installation, and this is the one the specification's sentence fails on.
\<close>

type_synonym lane = "rat option \<times> nat"

definition key_min :: "rat option \<Rightarrow> rat option \<Rightarrow> rat option" where
  "key_min a b =
     (case (a, b) of
        (Some x, Some y) \<Rightarrow> Some (min x y)
      | (Some x, None) \<Rightarrow> Some x
      | (None, _) \<Rightarrow> b)"

definition key_max :: "rat option \<Rightarrow> rat option \<Rightarrow> rat option" where
  "key_max a b = (case (a, b) of (Some x, Some y) \<Rightarrow> Some (max x y) | _ \<Rightarrow> None)"

definition cmp_merge_lane :: "bool \<Rightarrow> lane \<Rightarrow> lane \<Rightarrow> lane" where
  "cmp_merge_lane takes_max in1 in2 =
     (let tmp_key = (if takes_max then key_max (fst in2) (fst in1) else key_min (fst in2) (fst in1))
      in (tmp_key, if tmp_key = fst in1 then snd in1 else snd in2))"

definition cmp_merge :: "nat list \<Rightarrow> bool list \<Rightarrow> lane list \<Rightarrow> lane list" where
  "cmp_merge partner opmask v =
     map (\<lambda>(takes_max, in1, j). cmp_merge_lane takes_max in1 (v ! j))
       (zip opmask (zip v partner))"

definition sort_ymm_64bit :: "lane list \<Rightarrow> lane list" where
  "sort_ymm_64bit v =
     cmp_merge [1, 0, 3, 2] [False, True, False, True]
       (cmp_merge [3, 2, 1, 0] [False, False, True, True]
          (cmp_merge [1, 0, 3, 2] [False, True, False, True] v))"

definition argsort :: "rat list \<Rightarrow> nat list option" where
  "argsort keys =
     (if length keys \<le> 4
      then Some (take (length keys)
             (map snd (sort_ymm_64bit
                (zip (map Some keys @ replicate (4 - length keys) None) [0, 1, 2, 3]))))
      else None)"

definition nargsort :: "rat list \<Rightarrow> nat list option" where
  "nargsort keys =
     (case argsort (rev keys) of
        None \<Rightarrow> None
      | Some indexer \<Rightarrow> Some (rev (map (\<lambda>j. length keys - Suc j) indexer)))"

definition vectorised_sort_values :: "overview_row list \<Rightarrow> overview_row list option" where
  "vectorised_sort_values rows =
     (case nargsort (map Relevanz_Score rows) of
        None \<Rightarrow> None
      | Some indexer \<Rightarrow> Some (map (\<lambda>j. rows ! j) indexer))"




subsection \<open>Sheet names\<close>

text \<open>\<open>nat_of_digits\<close> reads a decimal numeral back. \<open>candidate_sheet_names i rs\<close> are the
  names the loop of lines 478-490 passes to \<open>to_excel\<close> for the results \<open>rs\<close>, the first
  of which has index \<open>i\<close>; \<open>names_before i\<close> are the names written before that index is
  reached. \<open>mixed_env\<close> is the concrete environment with another analyzer: the first
  document has experience and no skills, the later ones skills and no experience. The
  \<open>claimed\<close> names are those of the specification.\<close>

definition nat_of_digits :: "string \<Rightarrow> nat" where
  "nat_of_digits ds = foldl (\<lambda>a c. 10 * a + (of_char c - 48)) 0 ds"

fun candidate_sheet_names :: "nat \<Rightarrow> analysis_result list \<Rightarrow> string list" where
  "candidate_sheet_names i [] = []"
| "candidate_sheet_names i (r # rs) =
     (if has_skills r then [skills_sheet_name i] else []) @
     (if has_experience r then [experience_sheet_name i] else []) @
     candidate_sheet_names (Suc i) rs"

definition names_before :: "nat \<Rightarrow> string set" where
  "names_before i =
     insert overview_sheet_name (skills_sheet_name ` {..<i} \<union> experience_sheet_name ` {..<i})"

definition mixed_analyze :: "path \<Rightarrow> string option \<Rightarrow> string + analysis_result" where
  "mixed_analyze p j =
     (if extension p = ''docx'' then Inl ''unreadable document''
      else if p = ''/tmp/tmp.pdf'' then Inr ((demo_result None)\<lparr>skills := Some []\<rparr>)
      else Inr ((demo_result None)\<lparr>experience := None\<rparr>))"

definition mixed_env :: env where
  "mixed_env = demo_env\<lparr>analyze_cv_file := mixed_analyze\<rparr>"

definition claimed_overview_sheet_name :: string where
  "claimed_overview_sheet_name = ''Overview''"

definition claimed_skills_sheet_name :: "nat \<Rightarrow> string" where
  "claimed_skills_sheet_name i = ''Candidate_'' @ str_nat (i + 1) @ ''_Skills''"

definition claimed_experience_sheet_name :: "nat \<Rightarrow> string" where
  "claimed_experience_sheet_name i = ''Candidate_'' @ str_nat (i + 1) @ ''_Experience''"

subsection \<open>Two environments in which a step outside the analysis loop raises\<close>

text \<open>In \<open>full_disk_env\<close> the bytes of \<open>b.docx\<close> cannot be written to its temporary
  file; in \<open>unreadable_env\<close> the finished spreadsheet cannot be read back.\<close>

definition full_disk_env :: env where
  "full_disk_env =
     demo_env\<lparr>tmp_write := (\<lambda>u. if up_name u = ''b.docx'' then Some ''No space left on device''
                                 else None)\<rparr>"

definition unreadable_env :: env where
  "unreadable_env = demo_env\<lparr>read_back := Some ''Permission denied''\<rparr>"

subsection \<open>An environment in which saving an upload fails\<close>

text \<open>As the concrete environment, but the bytes of \<open>b.pdf\<close> cannot be written to its
  temporary file: line 374 raises.\<close>

definition second_write_fails_env :: env where
  "second_write_fails_env =
     demo_env\<lparr>tmp_write := (\<lambda>u. if up_name u = ''b.pdf'' then Some ''No space left on device''
                                 else None)\<rparr>"

subsection \<open>The structured-text export as the library writes and reads it (line 465)\<close>

text \<open>
  Modelled from the library's documentation: \<open>json.dumps(all_results, indent=2)\<close> and
  the parser that reads such a text back are Python's \<open>json\<close> module, not code of the
  repository. They are written out far enough to state what reading an export back yields.

  A JSON value. A number is the finite decimal \<open>m / 10 ^ k\<close> (\<open>JNum m k\<close>): the model has
  no floating point, and a Python float is printed as a finite decimal. An object keeps its
  members in the order of the dict.
\<close>

datatype json =
    JNull
  | JBool bool
  | JNum int nat
  | JStr string
  | JArr "json list"
  | JObj "(string \<times> json) list"

text \<open>
  The encoder with \<open>indent=2\<close> and the other defaults (\<open>ensure_ascii=True\<close>, separators
  \<open>","\<close> and \<open>": "\<close>, keys in the order of the dict). An empty list is \<open>[]\<close> and an empty
  dict \<open>{}\<close>; otherwise every item starts on a line of its own, indented by two spaces per
  level of nesting, and the closing bracket stands on its own line at the level of the
  opening one. In a string the quote, the backslash and the control characters with a short
  escape are written with it, and every other character outside \<open>' '..'~'\<close> as \<open>\u00xx\<close>
  (a character of the model is a code point below 256). Numbers are written in positional
  notation, with exactly the \<open>k\<close> decimals of \<open>JNum m k\<close>; the exponent notation the
  library uses for floats below \<open>1e-4\<close> or from \<open>1e16\<close> on is not modelled.
\<close>

definition newline_indent :: "nat \<Rightarrow> string" where
  "newline_indent level = CHR 0x0A # replicate (2 * level) (CHR '' '')"

definition hex_digit :: "nat \<Rightarrow> char" where
  "hex_digit d = ''0123456789abcdef'' ! d"

definition escape_char :: "char \<Rightarrow> string" where
  "escape_char c =
     (if c = CHR 0x22 then [CHR 0x5C, CHR 0x22]
      else if c = CHR 0x5C then [CHR 0x5C, CHR 0x5C]
      else if c = CHR 0x0A then [CHR 0x5C, CHR ''n'']
      else if c = CHR 0x0D then [CHR 0x5C, CHR ''r'']
      else if c = CHR 0x09 then [CHR 0x5C, CHR ''t'']
      else if c = CHR 0x08 then [CHR 0x5C, CHR ''b'']
      else if c = CHR 0x0C then [CHR 0x5C, CHR ''f'']
      else if (of_char c :: nat) < 32 \<or> 126 < (of_char c :: nat)
        then [CHR 0x5C, CHR ''u'', CHR ''0'', CHR ''0'',
              hex_digit (of_char c div 16), hex_digit (of_char c mod 16)]
      else [c])"

definition encode_string :: "string \<Rightarrow> string" where
  "encode_string s = CHR 0x22 # concat (map escape_char s) @ [CHR 0x22]"

definition encode_number :: "int \<Rightarrow> nat \<Rightarrow> string" where
  "encode_number m k =
     (if m < 0 then ''-'' else '''') @
     str_nat (nat \<bar>m\<bar> div 10 ^ k) @
     (if k = 0 then ''''
      else CHR ''.'' # replicate (k - length (str_nat (nat \<bar>m\<bar> mod 10 ^ k))) (CHR ''0'') @
           str_nat (nat \<bar>m\<bar> mod 10 ^ k))"

fun encode :: "nat \<Rightarrow> json \<Rightarrow> string"
  and encode_more :: "nat \<Rightarrow> json list \<Rightarrow> string"
  and encode_more_members :: "nat \<Rightarrow> (string \<times> json) list \<Rightarrow> string"
where
  "encode level JNull = ''null''"
| "encode level (JBool b) = (if b then ''true'' else ''false'')"
| "encode level (JNum m k) = encode_number m k"
| "encode level (JStr s) = encode_string s"
| "encode level (JArr []) = ''[]''"
| "encode level (JArr (x # xs)) =
     ''['' @ newline_indent (Suc level) @ encode (Suc level) x @ encode_more (Suc level) xs @
     newline_indent level @ '']''"
| "encode level (JObj []) = ''{}''"
| "encode level (JObj (kv # kvs)) =
     ''{'' @ newline_indent (Suc level) @ encode_string (fst kv) @ '': '' @ encode (Suc level) (snd kv) @
     encode_more_members (Suc level) kvs @ newline_indent level @ ''}''"
| "encode_more level [] = ''''"
| "encode_more level (x # xs) =
     '','' @ newline_indent level @ encode level x @ encode_more level xs"
| "encode_more_members level [] = ''''"
| "encode_more_members level (kv # kvs) =
     '','' @ newline_indent level @ encode_string (fst kv) @ '': '' @ encode level (snd kv) @
     encode_more_members level kvs"

text \<open>
  The decoder (\<open>json.loads\<close>). White space is skipped before every token; a string ends at
  the first unescaped quote and may not contain a raw control character; a number has no
  leading zero and at least one digit after a decimal point (exponents, \<open>NaN\<close> and
  \<open>Infinity\<close>, which the library also reads, are left out: such a text is refused here);
  a key that occurs twice in an object keeps its first position and takes its last value
  (\<open>py_dict\<close>); text after the value, other than white space, is an error. \<open>decode\<close> is
  given more fuel than the text has characters, so it never stops for lack of it.
\<close>

definition is_ws :: "char \<Rightarrow> bool" where
  "is_ws c = (c = CHR '' '' \<or> c = CHR 0x0A \<or> c = CHR 0x0D \<or> c = CHR 0x09)"

definition skip_ws :: "string \<Rightarrow> string" where
  "skip_ws s = dropWhile is_ws s"

definition is_digit :: "char \<Rightarrow> bool" where
  "is_digit c = (48 \<le> (of_char c :: nat) \<and> (of_char c :: nat) \<le> 57)"

definition hex_value :: "char \<Rightarrow> nat option" where
  "hex_value c =
     (let n = (of_char c :: nat)
      in if 48 \<le> n \<and> n \<le> 57 then Some (n - 48)
         else if 97 \<le> n \<and> n \<le> 102 then Some (n - 87)
         else if 65 \<le> n \<and> n \<le> 70 then Some (n - 55)
         else None)"

definition unescape :: "char \<Rightarrow> char option" where
  "unescape e =
     (if e = CHR 0x22 then Some (CHR 0x22)
      else if e = CHR 0x5C then Some (CHR 0x5C)
      else if e = CHR ''/'' then Some (CHR ''/'')
      else if e = CHR ''b'' then Some (CHR 0x08)
      else if e = CHR ''f'' then Some (CHR 0x0C)
      else if e = CHR ''n'' then Some (CHR 0x0A)
      else if e = CHR ''r'' then Some (CHR 0x0D)
      else if e = CHR ''t'' then Some (CHR 0x09)
      else None)"

definition code_point :: "char \<Rightarrow> char \<Rightarrow> char \<Rightarrow> char \<Rightarrow> nat option" where
  "code_point a b c d =
     (case (hex_value a, hex_value b, hex_value c, hex_value d) of
        (Some w, Some x, Some y, Some z) \<Rightarrow> Some (4096 * w + 256 * x + 16 * y + z)
      | _ \<Rightarrow> None)"

definition cons_char :: "char \<Rightarrow> (string \<times> string) option \<Rightarrow> (string \<times> string) option" where
  "cons_char c r = (case r of None \<Rightarrow> None | Some (str, rest) \<Rightarrow> Some (c # str, rest))"

fun decode_string :: "string \<Rightarrow> (string \<times> string) option" where
  "decode_string [] = None"
| "decode_string (c # s) =
     (if c = CHR 0x22 then Some ([], s)
      else if c = CHR 0x5C then
        (case s of
           [] \<Rightarrow> None
         | e # t \<Rightarrow>
             if e = CHR ''u'' then
               (case t of
                  h1 # h2 # h3 # h4 # u \<Rightarrow>
                    (case code_point h1 h2 h3 h4 of
                       None \<Rightarrow> None
                     | Some n \<Rightarrow> if n < 256 then cons_char (char_of n) (decode_string u) else None)
                | _ \<Rightarrow> None)
             else
               (case unescape e of
                  None \<Rightarrow> None
                | Some x \<Rightarrow> cons_char x (decode_string t)))
      else if (of_char c :: nat) < 32 then None
      else cons_char c (decode_string s))"

definition decode_number :: "string \<Rightarrow> (json \<times> string) option" where
  "decode_number s =
     (let negative = (case s of [] \<Rightarrow> False | c # t \<Rightarrow> c = CHR ''-'');
          s1 = (if negative then tl s else s);
          ip = takeWhile is_digit s1;
          s2 = dropWhile is_digit s1;
          sign = (if negative then - 1 else 1 :: int)
      in if ip = [] \<or> (hd ip = CHR ''0'' \<and> 1 < length ip) then None
         else
           (case s2 of
              [] \<Rightarrow> Some (JNum (sign * int (nat_of_digits ip)) 0, s2)
            | c # t \<Rightarrow>
                if c = CHR ''.'' then
                  (let fp = takeWhile is_digit t; s3 = dropWhile is_digit t
                   in if fp = [] then None
                      else Some (JNum (sign * int (nat_of_digits ip * 10 ^ length fp + nat_of_digits fp))
                                   (length fp), s3))
                else Some (JNum (sign * int (nat_of_digits ip)) 0, s2)))"

definition py_dict :: "(string \<times> json) list \<Rightarrow> (string \<times> json) list" where
  "py_dict members = foldl (\<lambda>d kv. AList.update (fst kv) (snd kv) d) [] members"

definition strip_prefix :: "string \<Rightarrow> string \<Rightarrow> string option" where
  "strip_prefix p s = (if take (length p) s = p then Some (drop (length p) s) else None)"

fun decode :: "nat \<Rightarrow> string \<Rightarrow> (json \<times> string) option"
  and decode_more :: "nat \<Rightarrow> json list \<Rightarrow> string \<Rightarrow> (json list \<times> string) option"
  and decode_more_members ::
    "nat \<Rightarrow> (string \<times> json) list \<Rightarrow> string \<Rightarrow> ((string \<times> json) list \<times> string) option"
where
  "decode 0 s = None"
| "decode (Suc n) s =
     (case skip_ws s of
        [] \<Rightarrow> None
      | c # t \<Rightarrow>
          if c = CHR ''['' then
            (case skip_ws t of
               [] \<Rightarrow> None
             | d # u \<Rightarrow>
                 if d = CHR '']'' then Some (JArr [], u)
                 else
                   (case decode n t of
                      None \<Rightarrow> None
                    | Some (x, w) \<Rightarrow>
                        (case decode_more n [x] w of
                           None \<Rightarrow> None
                         | Some (xs, r) \<Rightarrow> Some (JArr xs, r))))
          else if c = CHR ''{'' then
            (case skip_ws t of
               [] \<Rightarrow> None
             | d # u \<Rightarrow>
                 if d = CHR ''}'' then Some (JObj [], u)
                 else if d = CHR 0x22 then
                   (case decode_string u of
                      None \<Rightarrow> None
                    | Some (k, w) \<Rightarrow>
                        (case skip_ws w of
                           [] \<Rightarrow> None
                         | col # x \<Rightarrow>
                             if col = CHR '':'' then
                               (case decode n x of
                                  None \<Rightarrow> None
                                | Some (v, y) \<Rightarrow>
                                    (case decode_more_members n [(k, v)] y of
                                       None \<Rightarrow> None
                                     | Some (kvs, r) \<Rightarrow> Some (JObj (py_dict kvs), r)))
                             else None))
                 else None)
          else if c = CHR 0x22 then
            (case decode_string t of None \<Rightarrow> None | Some (str, r) \<Rightarrow> Some (JStr str, r))
          else if c = CHR ''n'' then
            (case strip_prefix ''null'' (c # t) of None \<Rightarrow> None | Some r \<Rightarrow> Some (JNull, r))
          else if c = CHR ''t'' then
            (case strip_prefix ''true'' (c # t) of None \<Rightarrow> None | Some r \<Rightarrow> Some (JBool True, r))
          else if c = CHR ''f'' then
            (case strip_prefix ''false'' (c # t) of None \<Rightarrow> None | Some r \<Rightarrow> Some (JBool False, r))
          else decode_number (c # t))"
| "decode_more 0 acc s = None"
| "decode_more (Suc n) acc s =
     (case skip_ws s of
        [] \<Rightarrow> None
      | c # t \<Rightarrow>
          if c = CHR '']'' then Some (acc, t)
          else if c = CHR '','' then
            (case decode n t of
               None \<Rightarrow> None
             | Some (x, w) \<Rightarrow> decode_more n (acc @ [x]) w)
          else None)"
| "decode_more_members 0 acc s = None"
| "decode_more_members (Suc n) acc s =
     (case skip_ws s of
        [] \<Rightarrow> None
      | c # t \<Rightarrow>
          if c = CHR ''}'' then Some (acc, t)
          else if c = CHR '','' then
            (case skip_ws t of
               [] \<Rightarrow> None
             | d # u \<Rightarrow>
                 if d = CHR 0x22 then
                   (case decode_string u of
                      None \<Rightarrow> None
                    | Some (k, w) \<Rightarrow>
                        (case skip_ws w of
                           [] \<Rightarrow> None
                         | col # x \<Rightarrow>
                             if col = CHR '':'' then
                               (case decode n x of
                                  None \<Rightarrow> None
                                | Some (v, y) \<Rightarrow> decode_more_members n (acc @ [(k, v)]) y)
                             else None))
                 else None)
          else None)"

definition json_loads :: "string \<Rightarrow> json option" where
  "json_loads s =
     (case decode (Suc (length s)) s of
        None \<Rightarrow> None
      | Some (v, rest) \<Rightarrow> if skip_ws rest = [] then Some v else None)"

text \<open>
  The results as JSON values. A key that is absent from the dict (\<open>None\<close>) is absent from
  the object; \<open>filename\<close>, which the page adds last, comes last (the record does not
  keep the order of the analyzer's own keys, nor does equality of dicts depend on it);
  \<open>skills\<close> and \<open>missing_skills\<close> are dicts from names to numbers; a date is written as
  its day number. \<open>decimal_of\<close> finds the decimals of a number (the search is bounded by
  the denominator, which exceeds the number of decimals of every finite decimal); a rational
  that is no finite decimal is no Python float, and \<open>json_number\<close> writes \<open>null\<close> for it.
  \<open>dumps\<close> and \<open>loads\<close> are the two library calls on result sequences, and
  \<open>result_of_json\<close> reads a parsed object as the record it stands for.
\<close>

fun decimal_places :: "nat \<Rightarrow> nat \<Rightarrow> rat \<Rightarrow> nat option" where
  "decimal_places 0 k r = None"
| "decimal_places (Suc fuel) k r =
     (if of_int \<lfloor>r * 10 ^ k\<rfloor> = r * 10 ^ k then Some k else decimal_places fuel (Suc k) r)"

definition decimal_of :: "rat \<Rightarrow> (int \<times> nat) option" where
  "decimal_of r =
     (case decimal_places (nat (snd (quotient_of r))) 0 r of
        None \<Rightarrow> None
      | Some k \<Rightarrow> Some (\<lfloor>r * 10 ^ k\<rfloor>, k))"

definition json_number :: "rat \<Rightarrow> json" where
  "json_number r = (case decimal_of r of None \<Rightarrow> JNull | Some (m, k) \<Rightarrow> JNum m k)"

definition json_member :: "string \<Rightarrow> ('a \<Rightarrow> json) \<Rightarrow> 'a option \<Rightarrow> (string \<times> json) list" where
  "json_member key wr field = (case field of None \<Rightarrow> [] | Some x \<Rightarrow> [(key, wr x)])"

definition json_of_dict :: "(string \<times> rat) list \<Rightarrow> json" where
  "json_of_dict d = JObj (map (\<lambda>kv. (fst kv, json_number (snd kv))) d)"

definition json_of_entry :: "experience_entry \<Rightarrow> json" where
  "json_of_entry x =
     JObj ([(''title'', JStr (title x)), (''company'', JStr (company x)),
            (''start_date'', JNum (start_date x) 0), (''end_date'', JNum (end_date x) 0)] @
           json_member ''duration'' json_number (duration x))"

definition json_of_result :: "analysis_result \<Rightarrow> json" where
  "json_of_result r =
     JObj (json_member ''profession'' JStr (profession r) @
           json_member ''experience_level'' JStr (experience_level r) @
           json_member ''relevance_score'' json_number (relevance_score r) @
           json_member ''skills'' json_of_dict (skills r) @
           json_member ''experience'' (\<lambda>xs. JArr (map json_of_entry xs)) (experience r) @
           json_member ''missing_skills'' json_of_dict (missing_skills r) @
           json_member ''recommendations'' (\<lambda>xs. JArr (map JStr xs)) (recommendations r) @
           json_member ''filename'' JStr (filename r))"

definition dumps :: "analysis_result list \<Rightarrow> string" where
  "dumps rs = encode 0 (JArr (map json_of_result rs))"

fun string_of_json :: "json \<Rightarrow> string option" where
  "string_of_json (JStr s) = Some s"
| "string_of_json v = None"

fun number_of_json :: "json \<Rightarrow> rat option" where
  "number_of_json (JNum m k) = Some (of_int m / 10 ^ k)"
| "number_of_json v = None"

fun int_of_json :: "json \<Rightarrow> int option" where
  "int_of_json (JNum m k) = (if k = 0 then Some m else None)"
| "int_of_json v = None"

fun list_of_json :: "(json \<Rightarrow> 'a option) \<Rightarrow> json \<Rightarrow> 'a list option" where
  "list_of_json rd (JArr xs) = those (map rd xs)"
| "list_of_json rd v = None"

fun dict_of_json :: "json \<Rightarrow> (string \<times> rat) list option" where
  "dict_of_json (JObj kvs) =
     those (map (\<lambda>kv. map_option (Pair (fst kv)) (number_of_json (snd kv))) kvs)"
| "dict_of_json v = None"

definition required :: "(json \<Rightarrow> 'a option) \<Rightarrow> string \<Rightarrow> (string \<times> json) list \<Rightarrow> 'a option" where
  "required rd key kvs = (case map_of kvs key of None \<Rightarrow> None | Some v \<Rightarrow> rd v)"

definition optional ::
  "(json \<Rightarrow> 'a option) \<Rightarrow> string \<Rightarrow> (string \<times> json) list \<Rightarrow> 'a option option" where
  "optional rd key kvs =
     (case map_of kvs key of
        None \<Rightarrow> Some None
      | Some v \<Rightarrow> (case rd v of None \<Rightarrow> None | Some x \<Rightarrow> Some (Some x)))"

fun entry_of_json :: "json \<Rightarrow> experience_entry option" where
  "entry_of_json (JObj kvs) =
     (case (required string_of_json ''title'' kvs, required string_of_json ''company'' kvs,
            required int_of_json ''start_date'' kvs, required int_of_json ''end_date'' kvs,
            optional number_of_json ''duration'' kvs) of
        (Some t, Some c, Some a, Some b, Some d) \<Rightarrow>
          Some \<lparr>title = t, company = c, start_date = a, end_date = b, duration = d\<rparr>
      | _ \<Rightarrow> None)"
| "entry_of_json v = None"

fun result_of_json :: "json \<Rightarrow> analysis_result option" where
  "result_of_json (JObj kvs) =
     (case (optional string_of_json ''filename'' kvs, optional string_of_json ''profession'' kvs,
            optional string_of_json ''experience_level'' kvs,
            optional number_of_json ''relevance_score'' kvs,
            optional dict_of_json ''skills'' kvs,
            optional (list_of_json entry_of_json) ''experience'' kvs,
            optional dict_of_json ''missing_skills'' kvs,
            optional (list_of_json string_of_json) ''recommendations'' kvs) of
        (Some f, Some p, Some l, Some sc, Some sk, Some ex, Some ms, Some rc) \<Rightarrow>
          Some \<lparr>filename = f, profession = p, experience_level = l, relevance_score = sc,
                skills = sk, experience = ex, missing_skills = ms, recommendations = rc\<rparr>
      | _ \<Rightarrow> None)"
| "result_of_json v = None"

definition loads :: "string \<Rightarrow> analysis_result list option" where
  "loads s = (case json_loads s of None \<Rightarrow> None | Some v \<Rightarrow> list_of_json result_of_json v)"

text \<open>
  What every Python value satisfies and a value of the record types need not: a number is a
  finite decimal, and the keys of a dict are pairwise different.
\<close>

definition number_clean :: "rat \<Rightarrow> bool" where
  "number_clean r = (decimal_of r \<noteq> None)"

definition dict_clean :: "(string \<times> rat) list \<Rightarrow> bool" where
  "dict_clean d = (distinct (map fst d) \<and> list_all (\<lambda>kv. number_clean (snd kv)) d)"

definition clean_if_present :: "('a \<Rightarrow> bool) \<Rightarrow> 'a option \<Rightarrow> bool" where
  "clean_if_present ok field = (case field of None \<Rightarrow> True | Some x \<Rightarrow> ok x)"

definition result_clean :: "analysis_result \<Rightarrow> bool" where
  "result_clean r =
     (clean_if_present number_clean (relevance_score r) \<and>
      clean_if_present dict_clean (skills r) \<and>
      clean_if_present dict_clean (missing_skills r) \<and>
      clean_if_present (list_all (\<lambda>x. clean_if_present number_clean (duration x))) (experience r))"

text \<open>What the proofs measure: the fuel a value needs, that the keys of every object in a
  value are pairwise different, and the characters that can follow or start a value.\<close>

fun need :: "json \<Rightarrow> nat"
  and need_more :: "json list \<Rightarrow> nat"
  and need_more_members :: "(string \<times> json) list \<Rightarrow> nat"
where
  "need JNull = 1"
| "need (JBool b) = 1"
| "need (JNum m k) = 1"
| "need (JStr s) = 1"
| "need (JArr []) = 1"
| "need (JArr (x # xs)) = Suc (need x + need_more xs)"
| "need (JObj []) = 1"
| "need (JObj (kv # kvs)) = Suc (need (snd kv) + need_more_members kvs)"
| "need_more [] = 1"
| "need_more (x # xs) = Suc (need x + need_more xs)"
| "need_more_members [] = 1"
| "need_more_members (kv # kvs) = Suc (need (snd kv) + need_more_members kvs)"

fun unique_keys :: "json \<Rightarrow> bool"
  and unique_keys_list :: "json list \<Rightarrow> bool"
  and unique_keys_members :: "(string \<times> json) list \<Rightarrow> bool"
where
  "unique_keys JNull = True"
| "unique_keys (JBool b) = True"
| "unique_keys (JNum m k) = True"
| "unique_keys (JStr s) = True"
| "unique_keys (JArr xs) = unique_keys_list xs"
| "unique_keys (JObj kvs) = (distinct (map fst kvs) \<and> unique_keys_members kvs)"
| "unique_keys_list [] = True"
| "unique_keys_list (x # xs) = (unique_keys x \<and> unique_keys_list xs)"
| "unique_keys_members [] = True"
| "unique_keys_members (kv # kvs) = (unique_keys (snd kv) \<and> unique_keys_members kvs)"

definition ends_value :: "string \<Rightarrow> bool" where
  "ends_value rest = (case rest of [] \<Rightarrow> True | c # t \<Rightarrow> \<not> is_digit c \<and> c \<noteq> CHR ''.'')"

definition starts_value :: "char \<Rightarrow> bool" where
  "starts_value c =
     (c = CHR ''['' \<or> c = CHR ''{'' \<or> c = CHR 0x22 \<or> c = CHR ''n'' \<or> c = CHR ''t'' \<or>
      c = CHR ''f'' \<or> c = CHR ''-'' \<or> is_digit c)"

text \<open>The environment of the demonstration with the library's \<open>json.dumps\<close>, and an
  analyzer whose results carry a score with a decimal and two skills.\<close>

definition scored_analyze :: "path \<Rightarrow> string option \<Rightarrow> string + analysis_result" where
  "scored_analyze p j =
     (if extension p = ''docx'' then Inl ''unreadable document''
      else Inr ((demo_result (Some (171 / 2)))\<lparr>skills := Some [(''python'', 9), (''sql'', 7 / 2)]\<rparr>))"

definition json_env :: env where
  "json_env = demo_env\<lparr>analyze_cv_file := scored_analyze, json_dumps := dumps\<rparr>"

section \<open>Properties\<close>

subsection \<open>Evaluation and frame lemmas\<close>

lemmas page_eval = batch_page_def batch_body_def new_page_def analyze_one_def Let_def
  excel_export_def write_workbook_def to_excel_step_def unlink_def rank_def reindex_def head_df_def
  overview_of_def total_experience_def py_sum_def dict_get_def truthy_def extension_def xlsx_def
  has_skills_def has_experience_def overview_sheet_name_def skills_sheet_name_def
  experience_sheet_name_def

lemmas demo_eval = demo_env_def demo_uploads_def demo_analyze_def demo_result_def demo_entry_def
  demo_tmp_name_def

lemma save_uploads_frame:
  "save_uploads e ups s = (st, s') \<Longrightarrow>
     all_results s' = all_results s \<and> calls s' = calls s \<and> unlink_log s' = unlink_log s \<and>
     st_errors s' = st_errors s \<and> logged s' = logged s \<and> overview_df s' = overview_df s \<and>
     ranking_df s' = ranking_df s \<and> top_candidates s' = top_candidates s \<and>
     json_batch_data s' = json_batch_data s \<and> excel_data s' = excel_data s"
  by (induction ups arbitrary: s) (auto simp: Let_def split: option.splits)

lemma save_uploads_ok:
  "list_all (\<lambda>u. tmp_write e u = None) ups \<Longrightarrow>
     fst (save_uploads e ups s) = Completed \<and>
     map snd (temp_files (snd (save_uploads e ups s))) = map snd (temp_files s) @ map up_name ups"
  by (induction ups arbitrary: s) (auto simp: Let_def)

lemma analyze_one_results:
  "all_results (analyze_one e job t s) =
     all_results s @ (case tagged_result e job t of None \<Rightarrow> [] | Some r \<Rightarrow> [r])"
  by (simp add: analyze_one_def tagged_result_def Let_def split: sum.splits)

lemma analyze_one_frame:
  "temp_files (analyze_one e job t s) = temp_files s \<and> fs (analyze_one e job t s) = fs s \<and>
   unlink_log (analyze_one e job t s) = unlink_log s \<and>
   calls (analyze_one e job t s) = calls s @ [(fst t, if truthy job then job else None)]"
  by (simp add: analyze_one_def Let_def split: sum.splits)

lemma analysis_loop_results:
  "all_results (analysis_loop e job ts s) = all_results s @ List.map_filter (tagged_result e job) ts"
  by (induction ts arbitrary: s)
    (auto simp: analyze_one_results List.map_filter_simps split: option.splits)

lemma analysis_loop_frame:
  "temp_files (analysis_loop e job ts s) = temp_files s \<and> fs (analysis_loop e job ts s) = fs s \<and>
   unlink_log (analysis_loop e job ts s) = unlink_log s \<and>
   calls (analysis_loop e job ts s) =
     calls s @ map (\<lambda>t. (fst t, if truthy job then job else None)) ts"
  by (induction ts arbitrary: s) (auto simp: analyze_one_frame)

lemma cleanup_frame:
  "all_results (cleanup ts s) = all_results s \<and> calls (cleanup ts s) = calls s \<and>
   temp_files (cleanup ts s) = temp_files s \<and> ranking_df (cleanup ts s) = ranking_df s \<and>
   top_candidates (cleanup ts s) = top_candidates s \<and> excel_data (cleanup ts s) = excel_data s \<and>
   overview_df (cleanup ts s) = overview_df s \<and> json_batch_data (cleanup ts s) = json_batch_data s \<and>
   st_errors (cleanup ts s) = st_errors s \<and> logged (cleanup ts s) = logged s"
  by (induction ts arbitrary: s) (auto simp: unlink_def)

lemma excel_export_frame:
  "excel_export e ov s = (st, s') \<Longrightarrow>
     all_results s' = all_results s \<and> calls s' = calls s \<and> temp_files s' = temp_files s \<and>
     ranking_df s' = ranking_df s \<and> top_candidates s' = top_candidates s \<and>
     overview_df s' = overview_df s \<and> json_batch_data s' = json_batch_data s \<and>
     st_errors s' = st_errors s \<and> logged s' = logged s"
  by (auto simp: excel_export_def Let_def unlink_def split: sum.splits option.splits if_splits)

lemma rank_frame:
  "all_results (rank e ov s) = all_results s \<and> calls (rank e ov s) = calls s \<and>
   temp_files (rank e ov s) = temp_files s \<and> fs (rank e ov s) = fs s \<and>
   unlink_log (rank e ov s) = unlink_log s \<and> excel_data (rank e ov s) = excel_data s \<and>
   overview_df (rank e ov s) = overview_df s \<and> st_errors (rank e ov s) = st_errors s \<and>
   logged (rank e ov s) = logged s"
  by (simp add: rank_def Let_def)

lemma length_map_filter:
  "length (List.map_filter f xs) = length xs - length (filter (\<lambda>x. f x = None) xs)"
  by (induction xs) (auto simp: List.map_filter_simps Suc_diff_le split: option.splits)

text \<open>What the body of the \<open>try\<close> leaves behind when every upload could be saved.\<close>

lemma batch_body_results:
  assumes ok: "list_all (\<lambda>u. tmp_write e u = None) ups"
    and run: "batch_body e ups job (new_page files) = (st, s)"
  shows "map snd (temp_files s) = map up_name ups \<and>
         calls s = map (\<lambda>t. (fst t, if truthy job then job else None)) (temp_files s) \<and>
         all_results s = List.map_filter (tagged_result e job) (temp_files s)"
proof -
  obtain s1 where sv: "save_uploads e ups (new_page files) = (Completed, s1)"
    using save_uploads_ok [OF ok, of "new_page files"]
    by (cases "save_uploads e ups (new_page files)") auto
  have tf1: "map snd (temp_files s1) = map up_name ups"
    using save_uploads_ok [OF ok, of "new_page files"] sv by (simp add: new_page_def)
  have fr1: "all_results s1 = [] \<and> calls s1 = []"
    using save_uploads_frame [OF sv] by (simp add: new_page_def)
  define s2 where "s2 = analysis_loop e job (temp_files s1) s1"
  have r2: "all_results s2 = List.map_filter (tagged_result e job) (temp_files s1)"
    unfolding s2_def using fr1 by (simp add: analysis_loop_results)
  have c2: "calls s2 = map (\<lambda>t. (fst t, if truthy job then job else None)) (temp_files s1)"
    unfolding s2_def using fr1 by (simp add: analysis_loop_frame)
  have t2: "temp_files s2 = temp_files s1"
    unfolding s2_def by (simp add: analysis_loop_frame)
  show ?thesis
  proof (cases "all_results s2 = []")
    case True
    then have "s = s2" using run sv by (simp add: batch_body_def s2_def)
    then show ?thesis using r2 c2 t2 tf1 by simp
  next
    case False
    define ov where "ov = map overview_of (all_results s2)"
    define s4 where "s4 = (if truthy job then rank e ov (s2\<lparr>overview_df := Some ov\<rparr>)
                          else s2\<lparr>overview_df := Some ov\<rparr>)"
    define s5 where "s5 = s4\<lparr>json_batch_data := Some (json_dumps e (all_results s4))\<rparr>"
    have ex: "excel_export e ov s5 = (st, s)"
      using run sv False
      by (cases "truthy job")
        (simp_all add: batch_body_def s2_def [symmetric] Let_def ov_def s4_def s5_def)
    have f5: "all_results s5 = all_results s2 \<and> calls s5 = calls s2 \<and> temp_files s5 = temp_files s2"
      by (simp add: s5_def s4_def rank_frame)
    show ?thesis using excel_export_frame [OF ex] f5 r2 c2 t2 tf1 by simp
  qed
qed

lemma demo_page_files:
  "temp_files (batch_page demo_env demo_uploads None {}) =
     [(''/tmp/tmp.pdf'', ''a.pdf''), (''/tmp/tmpx.docx'', ''b.docx''), (''/tmp/tmpxx.pdf'', ''c.pdf'')]"
  by (simp add: page_eval demo_eval)

subsection \<open>C1: one result per successfully analysed document\<close>

text \<open>
  Claim C1 as stated fails: it speaks of every batch, and the uploads are saved inside the
  same \<open>try\<close> as the analysis. When the write of the second of two uploads raises, the
  batch ends before the analysis loop: neither document is analysed and there is no result,
  though no analysis has failed.
\<close>

theorem no_results_when_write_fails:
  "length two_uploads = 2 \<and>
   filter (analysis_fails second_write_fails_env None)
     [(''/tmp/tmp.pdf'', ''a.pdf''), (''/tmp/tmpx.pdf'', ''b.pdf'')] = [] \<and>
   calls (batch_page second_write_fails_env two_uploads None {}) = [] \<and>
   all_results (batch_page second_write_fails_env two_uploads None {}) = [] \<and>
   length (all_results (batch_page second_write_fails_env two_uploads None {})) \<noteq> 2 - 0"
  by (simp add: page_eval demo_eval second_write_fails_env_def two_uploads_def analysis_fails_def
      insert_Diff_if)

text \<open>
  Claim C1, amended. When every upload could be saved to its temporary file, a batch of N
  documents of which M fail the analysis leaves exactly N - M results: the analyzer is
  called once for every document, in input order, whatever the earlier calls did, and
  \<open>all_results\<close> holds the results of the calls that returned, each with its original file
  name, in the order of the inputs.
\<close>

theorem batch_results_one_per_success:
  "list_all (\<lambda>u. tmp_write e u = None) ups \<Longrightarrow>
     (let out = batch_page e ups job files; docs = temp_files out in
        map snd docs = map up_name ups \<and>
        map fst (calls out) = map fst docs \<and>
        all_results out = List.map_filter (tagged_result e job) docs \<and>
        length (all_results out) = length ups - length (filter (analysis_fails e job) docs))"
proof -
  assume ok: "list_all (\<lambda>u. tmp_write e u = None) ups"
  have fails: "analysis_fails e job = (\<lambda>t. tagged_result e job t = None)"
    by (rule ext) (simp add: analysis_fails_def tagged_result_def split: sum.splits)
  show ?thesis
  proof (cases "ups = []")
    case True
    then show ?thesis by (simp add: batch_page_def new_page_def List.map_filter_simps)
  next
    case False
    obtain st s where run: "batch_body e ups job (new_page files) = (st, s)"
      by (cases "batch_body e ups job (new_page files)")
    note b = batch_body_results [OF ok run]
    have len: "length (temp_files s) = length ups"
      using b by (metis length_map)
    have out: "temp_files (batch_page e ups job files) = temp_files s \<and>
               calls (batch_page e ups job files) = calls s \<and>
               all_results (batch_page e ups job files) = all_results s"
      using False run by (cases st) (simp_all add: batch_page_def cleanup_frame)
    show ?thesis
      using b out len by (simp add: Let_def length_map_filter fails comp_def)
  qed
qed

theorem batch_results_one_per_success_witness:
  "list_all (\<lambda>u. tmp_write demo_env u = None) demo_uploads \<and>
   map filename (all_results (batch_page demo_env demo_uploads None {})) =
     [Some ''a.pdf'', Some ''c.pdf''] \<and>
   length (all_results (batch_page demo_env demo_uploads None {})) = 3 - 1"
proof -
  have h: "list_all (\<lambda>u. tmp_write demo_env u = None) demo_uploads"
    by (simp add: demo_env_def demo_uploads_def)
  show ?thesis
    using h batch_results_one_per_success [OF h, of None "{}"] demo_page_files
    by (simp add: Let_def List.map_filter_simps tagged_result_def analysis_fails_def demo_eval
        truthy_def extension_def)
qed

subsection \<open>C10: an empty job description\<close>

lemma analyze_one_empty_job: "analyze_one e (Some []) t s = analyze_one e None t s"
  by (simp add: analyze_one_def truthy_def)

lemma analysis_loop_empty_job: "analysis_loop e (Some []) ts s = analysis_loop e None ts s"
  by (induction ts arbitrary: s) (simp_all add: analyze_one_empty_job)

lemma batch_body_empty_job: "batch_body e ups (Some []) s = batch_body e ups None s"
proof (cases "save_uploads e ups s")
  case (Pair st1 s1)
  then show ?thesis
    by (cases st1) (simp_all add: batch_body_def analysis_loop_empty_job truthy_def Let_def)
qed

lemma analyze_one_ranking:
  "ranking_df (analyze_one e job t s) = ranking_df s \<and>
   top_candidates (analyze_one e job t s) = top_candidates s"
  by (simp add: analyze_one_def Let_def split: sum.splits)

lemma analysis_loop_ranking:
  "ranking_df (analysis_loop e job ts s) = ranking_df s \<and>
   top_candidates (analysis_loop e job ts s) = top_candidates s"
  by (induction ts arbitrary: s) (auto simp: analyze_one_ranking)

lemma batch_body_no_ranking:
  assumes nj: "\<not> truthy job" and run: "batch_body e ups job (new_page files) = (st, s)"
  shows "ranking_df s = None \<and> top_candidates s = None"
proof (cases "save_uploads e ups (new_page files)")
  case (Pair st1 s1)
  have fr1: "ranking_df s1 = None \<and> top_candidates s1 = None"
    using save_uploads_frame [OF Pair] by (simp add: new_page_def)
  show ?thesis
  proof (cases st1)
    case (Raised msg)
    then have "s = s1" using run Pair by (simp add: batch_body_def)
    then show ?thesis using fr1 by simp
  next
    case Completed
    define s2 where "s2 = analysis_loop e job (temp_files s1) s1"
    have r2: "ranking_df s2 = None \<and> top_candidates s2 = None"
      unfolding s2_def using fr1 by (simp add: analysis_loop_ranking)
    show ?thesis
    proof (cases "all_results s2 = []")
      case True
      then have "s = s2" using run Pair Completed by (simp add: batch_body_def s2_def)
      then show ?thesis using r2 by simp
    next
      case False
      define ov where "ov = map overview_of (all_results s2)"
      define s5 where "s5 = s2\<lparr>overview_df := Some ov, json_batch_data := Some (json_dumps e (all_results s2))\<rparr>"
      have ex: "excel_export e ov s5 = (st, s)"
        using run Pair Completed False nj
        by (simp add: batch_body_def s2_def [symmetric] Let_def ov_def s5_def)
      have "ranking_df s5 = None \<and> top_candidates s5 = None" using r2 by (simp add: s5_def)
      then show ?thesis using excel_export_frame [OF ex] by simp
    qed
  qed
qed

lemma save_uploads_raises:
  "\<not> list_all (\<lambda>u. tmp_write e u = None) ups \<Longrightarrow> \<exists>msg. fst (save_uploads e ups s) = Raised msg"
  by (induction ups arbitrary: s) (auto simp: Let_def split: option.splits)

lemma batch_page_calls_when_write_fails:
  assumes "\<not> list_all (\<lambda>u. tmp_write e u = None) ups"
  shows "calls (batch_page e ups job files) = []"
proof (cases "ups = []")
  case True
  then show ?thesis by (simp add: batch_page_def new_page_def)
next
  case False
  obtain st1 s1 where sv: "save_uploads e ups (new_page files) = (st1, s1)"
    by (cases "save_uploads e ups (new_page files)")
  obtain msg where r: "st1 = Raised msg"
    using save_uploads_raises [OF assms, of "new_page files"] sv by auto
  have c1: "calls s1 = []"
    using save_uploads_frame [OF sv] by (simp add: new_page_def)
  show ?thesis
    using False sv r c1 by (simp add: batch_page_def batch_body_def cleanup_frame)
qed

lemma batch_page_calls_when_saved:
  assumes ok: "list_all (\<lambda>u. tmp_write e u = None) ups"
  shows "calls (batch_page e ups job files) =
           map (\<lambda>t. (fst t, if truthy job then job else None)) (temp_files (batch_page e ups job files)) \<and>
         map snd (temp_files (batch_page e ups job files)) = map up_name ups"
proof (cases "ups = []")
  case True
  then show ?thesis by (simp add: batch_page_def new_page_def)
next
  case False
  obtain st s where run: "batch_body e ups job (new_page files) = (st, s)"
    by (cases "batch_body e ups job (new_page files)")
  have out: "temp_files (batch_page e ups job files) = temp_files s \<and>
             calls (batch_page e ups job files) = calls s"
    using False run by (cases st) (simp_all add: batch_page_def cleanup_frame)
  show ?thesis using batch_body_results [OF ok run] out by simp
qed

text \<open>
  Claim C10 as stated fails in one point: the analyzer is not invoked for every document
  when saving an upload raises, with an empty job description as without one.
\<close>

theorem empty_job_never_reaches_analyzer_when_write_fails:
  "length two_uploads = 2 \<and>
   calls (batch_page second_write_fails_env two_uploads (Some []) {}) = []"
  by (simp add: page_eval demo_eval second_write_fails_env_def two_uploads_def insert_Diff_if)

text \<open>
  Claim C10, amended. With job matching switched on and an empty job description the page
  does exactly what it does without a job description: the two runs end in the same state
  and neither the ranking table nor the top candidates are produced. When every upload could
  be saved, the analyzer is invoked exactly once for every document, in input order, each
  time without the job-description argument; otherwise it is not invoked at all.
\<close>

theorem empty_job_description_is_no_job_description:
  "batch_page e ups (Some []) files = batch_page e ups None files \<and>
   ranking_df (batch_page e ups (Some []) files) = None \<and>
   top_candidates (batch_page e ups (Some []) files) = None \<and>
   calls (batch_page e ups (Some []) files) =
     (if list_all (\<lambda>u. tmp_write e u = None) ups
      then map (\<lambda>t. (fst t, None)) (temp_files (batch_page e ups (Some []) files))
      else []) \<and>
   (list_all (\<lambda>u. tmp_write e u = None) ups \<longrightarrow>
      map snd (temp_files (batch_page e ups (Some []) files)) = map up_name ups)"
proof -
  have eq: "batch_page e ups (Some []) files = batch_page e ups None files"
    by (simp add: batch_page_def batch_body_empty_job)
  have rank: "ranking_df (batch_page e ups None files) = None \<and>
     top_candidates (batch_page e ups None files) = None"
  proof (cases "ups = []")
    case True
    then show ?thesis by (simp add: batch_page_def new_page_def)
  next
    case False
    obtain st s where run: "batch_body e ups None (new_page files) = (st, s)"
      by (cases "batch_body e ups None (new_page files)")
    have nj: "\<not> truthy None" by (simp add: truthy_def)
    have out: "ranking_df (batch_page e ups None files) = ranking_df s \<and>
               top_candidates (batch_page e ups None files) = top_candidates s"
      using False run by (cases st) (simp_all add: batch_page_def cleanup_frame)
    show ?thesis
      using batch_body_no_ranking [OF nj run] out by simp
  qed
  have nj: "\<not> truthy None" by (simp add: truthy_def)
  show ?thesis
  proof (cases "list_all (\<lambda>u. tmp_write e u = None) ups")
    case True
    then show ?thesis
      using eq rank batch_page_calls_when_saved [OF True, of None files] nj by simp
  next
    case False
    then show ?thesis
      using eq rank batch_page_calls_when_write_fails [OF False, of None files] by simp
  qed
qed

theorem empty_job_description_is_no_job_description_witness:
  "list_all (\<lambda>u. tmp_write demo_env u = None) demo_uploads \<and>
   batch_page demo_env demo_uploads (Some []) {} = batch_page demo_env demo_uploads None {} \<and>
   calls (batch_page demo_env demo_uploads (Some []) {}) =
     [(''/tmp/tmp.pdf'', None), (''/tmp/tmpx.docx'', None), (''/tmp/tmpxx.pdf'', None)] \<and>
   map snd (temp_files (batch_page demo_env demo_uploads (Some []) {})) =
     [''a.pdf'', ''b.docx'', ''c.pdf'']"
proof -
  have h: "list_all (\<lambda>u. tmp_write demo_env u = None) demo_uploads"
    by (simp add: demo_env_def demo_uploads_def)
  have t: "temp_files (batch_page demo_env demo_uploads None {}) =
     [(''/tmp/tmp.pdf'', ''a.pdf''), (''/tmp/tmpx.docx'', ''b.docx''), (''/tmp/tmpxx.pdf'', ''c.pdf'')]"
    by (rule demo_page_files)
  note th = empty_job_description_is_no_job_description [of demo_env demo_uploads "{}"]
  have eq: "batch_page demo_env demo_uploads (Some []) {} = batch_page demo_env demo_uploads None {}"
    using th by simp
  have c: "calls (batch_page demo_env demo_uploads None {}) =
      map (\<lambda>t. (fst t, None)) (temp_files (batch_page demo_env demo_uploads None {}))"
    using th h unfolding eq by (elim conjE) simp
  show ?thesis
    unfolding eq using h c t by simp
qed


subsection \<open>C2: total experience years in the overview\<close>

lemma foldl_plus_sum_list: "foldl (+) a xs = a + sum_list (xs :: rat list)"
  by (induction xs arbitrary: a) (simp_all add: add.assoc)

lemma py_sum_sum_list: "py_sum xs = sum_list xs"
  by (simp add: py_sum_def foldl_plus_sum_list)

text \<open>
  Claim C2 as stated fails. The overview sums \<open>exp.get("duration", 0)\<close> (line 423) and
  never looks at the dates: for an entry from day 0 to day 1461 without a \<open>duration\<close> key
  the row shows 0 years, and the claimed total is 1461 / 365.25 = 4.
\<close>

theorem overview_total_is_not_date_arithmetic:
  "Berufserfahrung_Jahre (overview_of dates_only_result) = 0 \<and>
   claimed_total_experience dates_only_result = 4"
  by (simp add: overview_of_def total_experience_def py_sum_def dict_get_def dates_only_result_def
      demo_result_def demo_entry_def claimed_total_experience_def date_duration_def)

text \<open>
  Claim C2, amended. The total experience years of an overview row are the sum, over the
  experience entries of the result, of the entry's \<open>duration\<close> field, an entry without
  the field counting 0. A result without experience entries yields 0, and the total is the
  sum of the date differences in days over 365.25 whenever every entry's \<open>duration\<close>
  holds that value.
\<close>

theorem overview_total_sums_duration_fields:
  "Berufserfahrung_Jahre (overview_of r) =
     sum_list (map (\<lambda>ex. dict_get (duration ex) 0) (dict_get (experience r) [])) \<and>
   (dict_get (experience r) [] = [] \<longrightarrow> Berufserfahrung_Jahre (overview_of r) = 0) \<and>
   (list_all (\<lambda>ex. duration ex = Some (date_duration ex)) (dict_get (experience r) []) \<longrightarrow>
      Berufserfahrung_Jahre (overview_of r) = claimed_total_experience r)"
proof -
  have total: "Berufserfahrung_Jahre (overview_of r) =
      sum_list (map (\<lambda>ex. dict_get (duration ex) 0) (dict_get (experience r) []))"
    by (simp add: overview_of_def total_experience_def py_sum_sum_list)
  have same: "list_all (\<lambda>ex. duration ex = Some (date_duration ex)) es \<Longrightarrow>
      sum_list (map (\<lambda>ex. dict_get (duration ex) 0) es) = sum_list (map date_duration es)" for es
    by (induction es) (simp_all add: dict_get_def)
  show ?thesis
    using total same [of "dict_get (experience r) []"]
    by (auto simp: claimed_total_experience_def)
qed

theorem overview_total_sums_duration_fields_witness:
  "dict_get (experience (demo_result None)) [] \<noteq> [] \<and>
   list_all (\<lambda>ex. duration ex = Some (date_duration ex)) (dict_get (experience (demo_result None)) []) \<and>
   Berufserfahrung_Jahre (overview_of (demo_result None)) = 4 \<and>
   claimed_total_experience (demo_result None) = 4 \<and>
   dict_get (experience ((demo_result None)\<lparr>experience := None\<rparr>)) [] = [] \<and>
   Berufserfahrung_Jahre (overview_of ((demo_result None)\<lparr>experience := None\<rparr>)) = 0"
proof -
  have h: "list_all (\<lambda>ex. duration ex = Some (date_duration ex))
             (dict_get (experience (demo_result None)) [])"
    by (simp add: demo_result_def demo_entry_def dict_get_def date_duration_def)
  have c: "claimed_total_experience (demo_result None) = 4"
    by (simp add: claimed_total_experience_def demo_result_def demo_entry_def dict_get_def
        date_duration_def)
  have n: "dict_get (experience ((demo_result None)\<lparr>experience := None\<rparr>)) [] = []"
    by (simp add: dict_get_def)
  show ?thesis
    using h c n overview_total_sums_duration_fields [of "demo_result None"]
      overview_total_sums_duration_fields [of "(demo_result None)\<lparr>experience := None\<rparr>"]
    by (simp add: demo_result_def dict_get_def)
qed


subsection \<open>The ranking table\<close>

lemma batch_body_ranking:
  assumes run: "batch_body e ups job (new_page files) = (st, s)"
    and job: "truthy job" and res: "all_results s \<noteq> []"
  shows "overview_df s = Some (map overview_of (all_results s)) \<and>
         ranking_df s = Some (reindex (sort_values e (map overview_of (all_results s)))) \<and>
         top_candidates s =
           Some (head_df (min 3 (length (reindex (sort_values e (map overview_of (all_results s))))))
                  (reindex (sort_values e (map overview_of (all_results s)))))"
proof (cases "save_uploads e ups (new_page files)")
  case (Pair st1 s1)
  have fr1: "all_results s1 = []"
    using save_uploads_frame [OF Pair] by (simp add: new_page_def)
  show ?thesis
  proof (cases st1)
    case (Raised msg)
    then have "s = s1" using run Pair by (simp add: batch_body_def)
    then show ?thesis using fr1 res by simp
  next
    case Completed
    define s2 where "s2 = analysis_loop e job (temp_files s1) s1"
    show ?thesis
    proof (cases "all_results s2 = []")
      case True
      then have "s = s2" using run Pair Completed by (simp add: batch_body_def s2_def)
      then show ?thesis using True res by simp
    next
      case False
      define ov where "ov = map overview_of (all_results s2)"
      define s4 where "s4 = rank e ov (s2\<lparr>overview_df := Some ov\<rparr>)"
      define s5 where "s5 = s4\<lparr>json_batch_data := Some (json_dumps e (all_results s4))\<rparr>"
      have ex: "excel_export e ov s5 = (st, s)"
        using run Pair Completed False job
        by (simp add: batch_body_def s2_def [symmetric] Let_def ov_def s4_def s5_def)
      have f5: "all_results s5 = all_results s2 \<and> overview_df s5 = Some ov \<and>
                ranking_df s5 = Some (reindex (sort_values e ov)) \<and>
                top_candidates s5 =
                  Some (head_df (min 3 (length (reindex (sort_values e ov)))) (reindex (sort_values e ov)))"
        by (simp add: s5_def s4_def rank_def Let_def)
      show ?thesis using excel_export_frame [OF ex] f5 by (simp add: ov_def)
    qed
  qed
qed

lemma batch_page_ranking:
  assumes job: "truthy job" and res: "all_results (batch_page e ups job files) \<noteq> []"
  shows "overview_df (batch_page e ups job files) =
           Some (map overview_of (all_results (batch_page e ups job files))) \<and>
         ranking_df (batch_page e ups job files) =
           Some (reindex (sort_values e (map overview_of (all_results (batch_page e ups job files))))) \<and>
         top_candidates (batch_page e ups job files) =
           Some (head_df (min 3 (length (reindex (sort_values e
                    (map overview_of (all_results (batch_page e ups job files)))))))
                  (reindex (sort_values e (map overview_of (all_results (batch_page e ups job files))))))"
proof (cases "ups = []")
  case True
  then show ?thesis using res by (simp add: batch_page_def new_page_def)
next
  case False
  obtain st s where run: "batch_body e ups job (new_page files) = (st, s)"
    by (cases "batch_body e ups job (new_page files)")
  have out: "all_results (batch_page e ups job files) = all_results s \<and>
             overview_df (batch_page e ups job files) = overview_df s \<and>
             ranking_df (batch_page e ups job files) = ranking_df s \<and>
             top_candidates (batch_page e ups job files) = top_candidates s"
    using False run by (cases st) (simp_all add: batch_page_def cleanup_frame)
  then have "all_results s \<noteq> []" using res by simp
  from batch_body_ranking [OF run job this] out show ?thesis by simp
qed



lemma length_reindex: "length (reindex rows) = length rows"
  by (simp add: reindex_def)

lemma demo_job_rows:
  "map overview_of (all_results (batch_page demo_env demo_uploads (Some ''dev'') {})) =
     [demo_row ''a.pdf'' 12, demo_row ''c.pdf'' 14]"
  by (simp add: page_eval demo_eval demo_row_def)

lemma demo_job_count: "length (all_results (batch_page demo_env demo_uploads (Some ''dev'') {})) = 2"
  using arg_cong [OF demo_job_rows, of length] by simp

subsection \<open>C5: the top candidates\<close>

text \<open>
  Claim C5. In a batch with a job description and at least one result, where the sort
  returns as many rows as it is given, the top candidates are the first \<open>min 3 n\<close> rows of
  the ranking table, \<open>n\<close> being the number of results: never more than 3 and never more
  than \<open>n\<close> (so exactly 2 of 2).
\<close>

theorem top_candidates_first_three:
  assumes "truthy job"
    and "all_results (batch_page e ups job files) \<noteq> []"
    and "length (sort_values e (map overview_of (all_results (batch_page e ups job files)))) =
         length (all_results (batch_page e ups job files))"
  shows "\<exists>table top.
           ranking_df (batch_page e ups job files) = Some table \<and>
           top_candidates (batch_page e ups job files) = Some top \<and>
           length table = length (all_results (batch_page e ups job files)) \<and>
           top = take (min 3 (length table)) table \<and>
           length top = min 3 (length (all_results (batch_page e ups job files))) \<and>
           length top \<le> 3 \<and> length top \<le> length (all_results (batch_page e ups job files))"
  using batch_page_ranking [OF assms(1,2)] assms(3)
  by (simp add: head_df_def length_reindex)

theorem top_candidates_first_three_witness:
  "truthy (Some ''dev'') \<and>
   length (all_results (batch_page demo_env demo_uploads (Some ''dev'') {})) = 2 \<and>
   map_option length (ranking_df (batch_page demo_env demo_uploads (Some ''dev'') {})) = Some 2 \<and>
   map_option length (top_candidates (batch_page demo_env demo_uploads (Some ''dev'') {})) = Some 2"
proof -
  have j: "truthy (Some ''dev'')" by (simp add: truthy_def)
  have n: "all_results (batch_page demo_env demo_uploads (Some ''dev'') {}) \<noteq> []"
    using demo_job_count by auto
  have l: "length (sort_values demo_env
              (map overview_of (all_results (batch_page demo_env demo_uploads (Some ''dev'') {})))) =
           length (all_results (batch_page demo_env demo_uploads (Some ''dev'') {}))"
    by (simp add: demo_job_rows demo_job_count) (simp add: demo_env_def)
  show ?thesis
    using j demo_job_count top_candidates_first_three [OF j n l] by auto
qed

subsection \<open>C4: the order of the ranking table\<close>

text \<open>The vectorised sort on two rows of equal score leaves them in the order of the input,
  and sorts the four rows scoring 50, 50, 80 and 60 descending, the two rows of score 50
  exchanged.\<close>

lemmas network_eval = vectorised_sort_values_def nargsort_def argsort_def sort_ymm_64bit_def
  cmp_merge_def cmp_merge_lane_def key_min_def key_max_def

lemma two_tied_rows_keep_their_order:
  "vectorised_sort_values [demo_row ''a.pdf'' 50, demo_row ''b.pdf'' 50] =
     Some [demo_row ''a.pdf'' 50, demo_row ''b.pdf'' 50]"
  by (simp add: network_eval demo_row_def)

lemma four_rows_sorted:
  "vectorised_sort_values
     [demo_row ''a.pdf'' 50, demo_row ''b.pdf'' 50, demo_row ''c.pdf'' 80, demo_row ''d.pdf'' 60] =
   Some [demo_row ''c.pdf'' 80, demo_row ''d.pdf'' 60, demo_row ''b.pdf'' 50, demo_row ''a.pdf'' 50]"
  by (simp add: network_eval demo_row_def)





subsection \<open>The sheets of the workbook\<close>

lemma nat_of_digits_snoc: "nat_of_digits (ds @ [c]) = 10 * nat_of_digits ds + (of_char c - 48)"
  by (simp add: nat_of_digits_def)

lemma ten_cases: "d < 10 \<Longrightarrow> d \<in> {0, 1, 2, 3, 4, 5, 6, 7, 8, 9::nat}"
  by auto

lemma digit_char_value: "d < 10 \<Longrightarrow> of_char (digit_char d) - 48 = (d::nat)"
  using ten_cases [of d] by (auto simp: digit_char_def)

lemma nat_of_digits_str_nat: "nat_of_digits (str_nat n) = n"
proof (induction n rule: str_nat.induct)
  case (1 n)
  show ?case
  proof (cases "n < 10")
    case True
    then show ?thesis
      by (subst str_nat.simps) (simp add: nat_of_digits_def digit_char_value)
  next
    case False
    then have "nat_of_digits (str_nat (n div 10)) = n div 10" using "1.IH" by simp
    then show ?thesis
      using False by (subst str_nat.simps) (simp add: nat_of_digits_snoc digit_char_value)
  qed
qed

lemma str_nat_inj: "str_nat a = str_nat b \<Longrightarrow> a = b"
  by (metis nat_of_digits_str_nat)

lemma skills_sheet_name_inj: "skills_sheet_name i = skills_sheet_name j \<Longrightarrow> i = j"
  by (auto simp: skills_sheet_name_def dest: str_nat_inj)

lemma experience_sheet_name_inj: "experience_sheet_name i = experience_sheet_name j \<Longrightarrow> i = j"
  by (auto simp: experience_sheet_name_def dest: str_nat_inj)

lemma skills_not_experience: "skills_sheet_name i \<noteq> experience_sheet_name j"
proof
  assume "skills_sheet_name i = experience_sheet_name j"
  then have "last (skills_sheet_name i) = last (experience_sheet_name j)" by simp
  then show False by (simp add: skills_sheet_name_def experience_sheet_name_def)
qed

lemma overview_not_candidate:
  "overview_sheet_name \<noteq> skills_sheet_name i \<and> overview_sheet_name \<noteq> experience_sheet_name i"
  by (simp add: overview_sheet_name_def skills_sheet_name_def experience_sheet_name_def)

lemma experience_not_skills: "experience_sheet_name j \<noteq> skills_sheet_name i"
  using skills_not_experience [of i j] by auto

lemma skills_name_new: "skills_sheet_name i \<notin> names_before i"
  using overview_not_candidate [of i]
  by (auto simp: names_before_def skills_not_experience dest: skills_sheet_name_inj)

lemma experience_name_new: "experience_sheet_name i \<notin> insert (skills_sheet_name i) (names_before i)"
  using overview_not_candidate [of i]
  by (auto simp: names_before_def experience_not_skills dest: experience_sheet_name_inj)

lemma names_before_Suc:
  "names_before (Suc i) = insert (skills_sheet_name i) (insert (experience_sheet_name i) (names_before i))"
  by (auto simp: names_before_def lessThan_Suc)

lemma to_excel_step_names:
  "to_excel_step e (n, sh) wb = Inr wb1 \<Longrightarrow> n \<notin> set (map fst wb) \<Longrightarrow>
     map fst wb1 = map fst wb @ [n]"
  by (auto simp: to_excel_step_def update_keys split: option.splits)

lemma write_candidates_names:
  "write_candidates e i rs wb = Inr wb' \<Longrightarrow> set (map fst wb) \<subseteq> names_before i \<Longrightarrow>
     map fst wb' = map fst wb @ candidate_sheet_names i rs"
proof (induction rs arbitrary: i wb)
  case Nil
  then show ?case by simp
next
  case (Cons r rs)
  obtain wb1 where w1: "(if has_skills r
            then to_excel_step e (skills_sheet_name i, Skills_Sheet (dict_get (skills r) [])) wb
            else Inr wb) = Inr wb1"
    using Cons.prems(1) by (auto split: sum.splits)
  obtain wb2 where w2: "(if has_experience r
            then to_excel_step e (experience_sheet_name i, Experience_Sheet (dict_get (experience r) [])) wb1
            else Inr wb1) = Inr wb2"
    using Cons.prems(1) w1 by (auto split: sum.splits)
  have rest: "write_candidates e (Suc i) rs wb2 = Inr wb'"
    using Cons.prems(1) w1 w2 by simp
  have n1: "map fst wb1 = map fst wb @ (if has_skills r then [skills_sheet_name i] else [])"
  proof (cases "has_skills r")
    case True
    have "skills_sheet_name i \<notin> set (map fst wb)"
      using skills_name_new [of i] Cons.prems(2) by blast
    with w1 True show ?thesis by (simp add: to_excel_step_names)
  next
    case False
    with w1 show ?thesis by simp
  qed
  have s1: "set (map fst wb1) \<subseteq> insert (skills_sheet_name i) (names_before i)"
    using n1 Cons.prems(2) by auto
  have n2: "map fst wb2 = map fst wb1 @ (if has_experience r then [experience_sheet_name i] else [])"
  proof (cases "has_experience r")
    case True
    have "experience_sheet_name i \<notin> set (map fst wb1)"
      using experience_name_new [of i] s1 by blast
    with w2 True show ?thesis by (simp add: to_excel_step_names)
  next
    case False
    with w2 show ?thesis by simp
  qed
  have s2: "set (map fst wb2) \<subseteq> names_before (Suc i)"
    using n2 s1 by (auto simp: names_before_Suc)
  show ?case
    using Cons.IH [OF rest s2] n1 n2 by simp
qed

lemma write_workbook_names:
  assumes "write_workbook e ov rs = Inr wb"
  shows "map fst wb = overview_sheet_name # candidate_sheet_names 0 rs"
proof -
  obtain wb0 where w0: "to_excel_step e (overview_sheet_name, Overview_Sheet ov) [] = Inr wb0"
    and rest: "write_candidates e 0 rs wb0 = Inr wb"
    using assms by (auto simp: write_workbook_def split: sum.splits)
  have n0: "map fst wb0 = [overview_sheet_name]"
    using to_excel_step_names [OF w0] by simp
  then have "set (map fst wb0) \<subseteq> names_before 0"
    by (simp add: names_before_def)
  from write_candidates_names [OF rest this] n0 show ?thesis by simp
qed

lemma candidate_sheet_names_enumerate:
  "candidate_sheet_names i rs =
     concat (map (\<lambda>(k, r). (if has_skills r then [skills_sheet_name k] else []) @
                          (if has_experience r then [experience_sheet_name k] else []))
               (enumerate i rs))"
  by (induction rs arbitrary: i) simp_all

lemma length_candidate_sheet_names:
  "length (candidate_sheet_names i rs) =
     length (filter has_skills rs) + length (filter has_experience rs)"
  by (induction rs arbitrary: i) simp_all

lemma candidate_sheet_names_new:
  "set (candidate_sheet_names i rs) \<inter> names_before i = {}"
proof (induction rs arbitrary: i)
  case Nil
  then show ?case by simp
next
  case (Cons r rs)
  have "names_before i \<subseteq> names_before (Suc i)" by (auto simp: names_before_Suc)
  then have "set (candidate_sheet_names (Suc i) rs) \<inter> names_before i = {}"
    using Cons.IH [of "Suc i"] by blast
  then show ?case
    using skills_name_new [of i] experience_name_new [of i] by auto
qed

lemma distinct_candidate_sheet_names: "distinct (candidate_sheet_names i rs)"
proof (induction rs arbitrary: i)
  case Nil
  then show ?case by simp
next
  case (Cons r rs)
  have "skills_sheet_name i \<in> names_before (Suc i)" "experience_sheet_name i \<in> names_before (Suc i)"
    by (simp_all add: names_before_Suc)
  then have later: "skills_sheet_name i \<notin> set (candidate_sheet_names (Suc i) rs) \<and>
               experience_sheet_name i \<notin> set (candidate_sheet_names (Suc i) rs)"
    using candidate_sheet_names_new [of "Suc i" rs] by blast
  show ?case using Cons.IH [of "Suc i"] later by (simp add: skills_not_experience)
qed

lemma overview_not_in_candidates: "overview_sheet_name \<notin> set (candidate_sheet_names i rs)"
  using candidate_sheet_names_new [of i rs] by (auto simp: names_before_def)

lemma str_nat_examples: "str_nat 1 = ''1'' \<and> str_nat 2 = ''2'' \<and> str_nat 12 = ''12'' \<and> str_nat 305 = ''305''"
  by (simp add: str_nat.simps digit_char_def)

lemma analyze_one_excel:
  "excel_data (analyze_one e job t s) = excel_data s"
  by (simp add: analyze_one_def Let_def split: sum.splits)

lemma analysis_loop_excel:
  "excel_data (analysis_loop e job ts s) = excel_data s"
  by (induction ts arbitrary: s) (auto simp: analyze_one_excel)

lemma excel_export_workbook:
  "excel_export e ov s = (st, s') \<Longrightarrow> excel_data s = None \<Longrightarrow> excel_data s' = Some wb \<Longrightarrow>
     write_workbook e ov (all_results s) = Inr wb"
  by (auto simp: excel_export_def Let_def unlink_def split: sum.splits option.splits if_splits)

lemma batch_body_workbook:
  assumes run: "batch_body e ups job (new_page files) = (st, s)"
    and wb: "excel_data s = Some wb"
  shows "write_workbook e (map overview_of (all_results s)) (all_results s) = Inr wb"
proof (cases "save_uploads e ups (new_page files)")
  case (Pair st1 s1)
  have fr1: "excel_data s1 = None"
    using save_uploads_frame [OF Pair] by (simp add: new_page_def)
  show ?thesis
  proof (cases st1)
    case (Raised msg)
    then have "s = s1" using run Pair by (simp add: batch_body_def)
    then show ?thesis using fr1 wb by simp
  next
    case Completed
    define s2 where "s2 = analysis_loop e job (temp_files s1) s1"
    have x2: "excel_data s2 = None" unfolding s2_def using fr1 by (simp add: analysis_loop_excel)
    show ?thesis
    proof (cases "all_results s2 = []")
      case True
      then have "s = s2" using run Pair Completed by (simp add: batch_body_def s2_def)
      then show ?thesis using x2 wb by simp
    next
      case False
      define ov where "ov = map overview_of (all_results s2)"
      define s4 where "s4 = (if truthy job then rank e ov (s2\<lparr>overview_df := Some ov\<rparr>)
                            else s2\<lparr>overview_df := Some ov\<rparr>)"
      define s5 where "s5 = s4\<lparr>json_batch_data := Some (json_dumps e (all_results s4))\<rparr>"
      have ex: "excel_export e ov s5 = (st, s)"
        using run Pair Completed False
        by (cases "truthy job")
          (simp_all add: batch_body_def s2_def [symmetric] Let_def ov_def s4_def s5_def)
      have f5: "all_results s5 = all_results s2 \<and> excel_data s5 = None"
        using x2 by (simp add: s5_def s4_def rank_frame)
      then have "write_workbook e ov (all_results s5) = Inr wb"
        using excel_export_workbook [OF ex _ wb] by simp
      then show ?thesis using excel_export_frame [OF ex] f5 by (simp add: ov_def)
    qed
  qed
qed

lemma batch_page_workbook:
  assumes wb: "excel_data (batch_page e ups job files) = Some wb"
  shows "write_workbook e (map overview_of (all_results (batch_page e ups job files)))
           (all_results (batch_page e ups job files)) = Inr wb"
proof (cases "ups = []")
  case True
  then show ?thesis using wb by (simp add: batch_page_def new_page_def)
next
  case False
  obtain st s where run: "batch_body e ups job (new_page files) = (st, s)"
    by (cases "batch_body e ups job (new_page files)")
  have out: "all_results (batch_page e ups job files) = all_results s \<and>
             excel_data (batch_page e ups job files) = excel_data s"
    using False run by (cases st) (simp_all add: batch_page_def cleanup_frame)
  then have "excel_data s = Some wb" using wb by simp
  from batch_body_workbook [OF run this] out show ?thesis by simp
qed

lemma mixed_workbook:
  "map_option (map fst) (excel_data (batch_page mixed_env demo_uploads None {})) =
     Some [CHR 0xC3 # CHR 0x9C # ''bersicht'', ''Kandidat_1_Erfahrung'', ''Kandidat_2_Skills'']"
  by (simp add: page_eval demo_eval mixed_env_def mixed_analyze_def str_nat.simps digit_char_def)

lemma mixed_all_results:
  "all_results (batch_page mixed_env demo_uploads None {}) =
     [(demo_result None)\<lparr>filename := Some ''a.pdf'', skills := Some []\<rparr>,
      (demo_result None)\<lparr>filename := Some ''c.pdf'', experience := None\<rparr>]"
  by (simp add: page_eval demo_eval mixed_env_def mixed_analyze_def)

lemma mixed_counts:
  "length (filter has_skills (all_results (batch_page mixed_env demo_uploads None {}))) = 1 \<and>
   length (filter has_experience (all_results (batch_page mixed_env demo_uploads None {}))) = 1"
  by (simp add: mixed_all_results) (simp add: has_skills_def has_experience_def demo_result_def)

subsection \<open>C6: the number of sheets\<close>

text \<open>
  Claim C6. Whenever the spreadsheet is produced it has exactly 1 + S + E sheets: the
  overview sheet, one sheet for each of the S results with a non-empty skills mapping and
  one for each of the E results with a non-empty experience sequence. No two sheets share
  a name, so none is written over another.
\<close>

theorem workbook_sheet_count:
  "excel_data (batch_page e ups job files) = Some wb \<Longrightarrow>
     length wb = 1 + length (filter has_skills (all_results (batch_page e ups job files)))
                   + length (filter has_experience (all_results (batch_page e ups job files))) \<and>
     distinct (map fst wb)"
proof -
  assume "excel_data (batch_page e ups job files) = Some wb"
  then have names: "map fst wb =
      overview_sheet_name # candidate_sheet_names 0 (all_results (batch_page e ups job files))"
    by (rule write_workbook_names [OF batch_page_workbook])
  have "length wb = length (map fst wb)" by simp
  also have "\<dots> = 1 + length (filter has_skills (all_results (batch_page e ups job files)))
                   + length (filter has_experience (all_results (batch_page e ups job files)))"
    by (simp only: names list.size length_candidate_sheet_names)
  finally show ?thesis
    using names distinct_candidate_sheet_names overview_not_in_candidates by simp
qed

theorem workbook_sheet_count_witness:
  "map_option length (excel_data (batch_page mixed_env demo_uploads None {})) = Some (1 + 1 + 1) \<and>
   map_option (distinct \<circ> map fst) (excel_data (batch_page mixed_env demo_uploads None {})) = Some True"
proof -
  obtain wb where w: "excel_data (batch_page mixed_env demo_uploads None {}) = Some wb"
    using mixed_workbook by (cases "excel_data (batch_page mixed_env demo_uploads None {})") auto
  show ?thesis
    using workbook_sheet_count [OF w] mixed_counts w by simp
qed

subsection \<open>C7: the names of the sheets\<close>

text \<open>
  Claim C7 as stated fails: the page writes German names. For two results, the first
  with experience only and the second with skills only, the sheets are \<open>\<Uuml>bersicht\<close>,
  \<open>Kandidat_1_Erfahrung\<close> and \<open>Kandidat_2_Skills\<close>, not \<open>Overview\<close>,
  \<open>Candidate_1_Experience\<close> and \<open>Candidate_2_Skills\<close>.
\<close>

theorem sheet_names_are_german:
  "map_option (map fst) (excel_data (batch_page mixed_env demo_uploads None {})) =
     Some [CHR 0xC3 # CHR 0x9C # ''bersicht'', ''Kandidat_1_Erfahrung'', ''Kandidat_2_Skills''] \<and>
   [claimed_overview_sheet_name, claimed_experience_sheet_name 0, claimed_skills_sheet_name 1] =
     [''Overview'', ''Candidate_1_Experience'', ''Candidate_2_Skills''] \<and>
   map_option (map fst) (excel_data (batch_page mixed_env demo_uploads None {})) \<noteq>
     Some [claimed_overview_sheet_name, claimed_experience_sheet_name 0, claimed_skills_sheet_name 1]"
  by (simp add: mixed_workbook)
    (simp add: claimed_overview_sheet_name_def claimed_experience_sheet_name_def
      claimed_skills_sheet_name_def str_nat.simps digit_char_def)

text \<open>
  Claim C7, amended. The overview sheet is named \<open>\<Uuml>bersicht\<close>, and the sheets of the
  result at 1-based position i of the successful results are named \<open>Kandidat_i_Skills\<close>
  and \<open>Kandidat_i_Erfahrung\<close>, i in decimal; the sheets stand in that order.
\<close>

theorem workbook_sheet_names:
  "excel_data (batch_page e ups job files) = Some wb \<Longrightarrow>
     map fst wb =
       (CHR 0xC3 # CHR 0x9C # ''bersicht'') #
       concat (map (\<lambda>(i, r).
                 (if has_skills r then [''Kandidat_'' @ str_nat (i + 1) @ ''_Skills''] else []) @
                 (if has_experience r then [''Kandidat_'' @ str_nat (i + 1) @ ''_Erfahrung''] else []))
               (enumerate 0 (all_results (batch_page e ups job files))))"
proof -
  assume "excel_data (batch_page e ups job files) = Some wb"
  then have "map fst wb =
      overview_sheet_name # candidate_sheet_names 0 (all_results (batch_page e ups job files))"
    by (rule write_workbook_names [OF batch_page_workbook])
  then show ?thesis
    unfolding candidate_sheet_names_enumerate overview_sheet_name_def skills_sheet_name_def
      experience_sheet_name_def .
qed

theorem workbook_sheet_names_witness:
  "map_option (map fst) (excel_data (batch_page mixed_env demo_uploads None {})) =
     Some [CHR 0xC3 # CHR 0x9C # ''bersicht'', ''Kandidat_1_Erfahrung'', ''Kandidat_2_Skills'']"
proof -
  obtain wb where w: "excel_data (batch_page mixed_env demo_uploads None {}) = Some wb"
    using mixed_workbook by (cases "excel_data (batch_page mixed_env demo_uploads None {})") auto
  show ?thesis
    using workbook_sheet_names [OF w] w
    by (simp add: mixed_all_results)
      (simp add: has_skills_def has_experience_def demo_result_def str_nat.simps digit_char_def)
qed


subsection \<open>Files: what the \<open>finally\<close> and the export delete\<close>

lemma cleanup_fs: "fs (cleanup ts s) = fs s - fst ` set ts"
  by (induction ts arbitrary: s) (auto simp: unlink_def)

lemma cleanup_log:
  "count_list (unlink_log (cleanup ts s)) p =
     count_list (unlink_log s) p + (if p \<in> fst ` set ts \<and> p \<in> fs s then 1 else 0)"
proof (induction ts arbitrary: s)
  case Nil
  then show ?case by simp
next
  case (Cons t ts)
  show ?case
  proof (cases "fst t \<in> fs s")
    case True
    then show ?thesis using Cons.IH [of "unlink (fst t) s"] by (auto simp: unlink_def)
  next
    case False
    then show ?thesis using Cons.IH [of s] by auto
  qed
qed

lemma save_uploads_files:
  "save_uploads e ups s = (st, s') \<Longrightarrow> fst ` set (temp_files s) \<subseteq> fs s \<Longrightarrow>
     fst ` set (temp_files s') \<subseteq> fs s'"
proof (induction ups arbitrary: s)
  case Nil
  then show ?case by simp
next
  case (Cons u us)
  define p where "p = tmp_name e (fs s) (CHR ''.'' # extension (up_name u))"
  show ?case
  proof (cases "tmp_write e u")
    case (Some msg)
    then have "s' = s\<lparr>fs := insert p (fs s)\<rparr>"
      using Cons.prems(1) by (simp add: Let_def p_def)
    then show ?thesis using Cons.prems(2) by auto
  next
    case None
    define s1 where "s1 = s\<lparr>fs := insert p (fs s), temp_files := temp_files s @ [(p, up_name u)]\<rparr>"
    have run: "save_uploads e us s1 = (st, s')"
      using Cons.prems(1) None by (simp add: Let_def p_def s1_def)
    have "fst ` set (temp_files s1) \<subseteq> fs s1"
      using Cons.prems(2) by (auto simp: s1_def)
    from Cons.IH [OF run this] show ?thesis .
  qed
qed

lemma excel_export_files:
  "excel_export e ov s = (st, s') \<Longrightarrow>
     temp_files s' = temp_files s \<and>
     ((unlink_log s' = unlink_log s \<and> fs s \<subseteq> fs s' \<and> excel_data s' = excel_data s) \<or>
      (unlink_log s' = unlink_log s @ [xlsx] \<and> fs s' = fs s - {xlsx}))"
  by (auto simp: excel_export_def Let_def unlink_def split: sum.splits option.splits if_splits)

text \<open>When the body of the \<open>try\<close> is left, every recorded temporary file either still
  exists and was never unlinked, or is gone and was unlinked once (the second only if its
  name is that of the spreadsheet).\<close>

lemma batch_body_files:
  assumes run: "batch_body e ups job (new_page files) = (st, s)"
    and p: "p \<in> fst ` set (temp_files s)"
  shows "(p \<in> fs s \<and> count_list (unlink_log s) p = 0) \<or>
         (p \<notin> fs s \<and> count_list (unlink_log s) p = 1)"
proof (cases "save_uploads e ups (new_page files)")
  case (Pair st1 s1)
  have fr1: "unlink_log s1 = []"
    using save_uploads_frame [OF Pair] by (simp add: new_page_def)
  have in1: "fst ` set (temp_files s1) \<subseteq> fs s1"
    using save_uploads_files [OF Pair] by (simp add: new_page_def)
  show ?thesis
  proof (cases st1)
    case (Raised msg)
    then have "s = s1" using run Pair by (simp add: batch_body_def)
    then show ?thesis using fr1 in1 p by auto
  next
    case Completed
    define s2 where "s2 = analysis_loop e job (temp_files s1) s1"
    have f2: "temp_files s2 = temp_files s1 \<and> fs s2 = fs s1 \<and> unlink_log s2 = []"
      unfolding s2_def using fr1 by (simp add: analysis_loop_frame)
    show ?thesis
    proof (cases "all_results s2 = []")
      case True
      then have "s = s2" using run Pair Completed by (simp add: batch_body_def s2_def)
      then show ?thesis using f2 in1 p by auto
    next
      case False
      define ov where "ov = map overview_of (all_results s2)"
      define s4 where "s4 = (if truthy job then rank e ov (s2\<lparr>overview_df := Some ov\<rparr>)
                            else s2\<lparr>overview_df := Some ov\<rparr>)"
      define s5 where "s5 = s4\<lparr>json_batch_data := Some (json_dumps e (all_results s4))\<rparr>"
      have ex: "excel_export e ov s5 = (st, s)"
        using run Pair Completed False
        by (cases "truthy job")
          (simp_all add: batch_body_def s2_def [symmetric] Let_def ov_def s4_def s5_def)
      have f5: "temp_files s5 = temp_files s1 \<and> fs s5 = fs s1 \<and> unlink_log s5 = []"
        using f2 by (simp add: s5_def s4_def rank_frame)
      have "temp_files s = temp_files s1"
        using excel_export_files [OF ex] f5 by simp
      then have pin: "p \<in> fs s1" using in1 p by auto
      show ?thesis
        using excel_export_files [OF ex] f5 pin by auto
    qed
  qed
qed

lemma demo_run_clean:
  "fs (batch_page demo_env two_uploads None {}) = {} \<and>
   unlink_log (batch_page demo_env two_uploads None {}) =
     [''batch_analysis.xlsx'', ''/tmp/tmp.pdf'', ''/tmp/tmpx.pdf'']"
  by (simp add: page_eval demo_eval two_uploads_def str_nat.simps digit_char_def insert_Diff_if)

text \<open>
  Every temporary file the page has recorded in \<open>temp_files\<close> is gone when the page is
  done, on every path through the \<open>try\<close>, and \<open>os.unlink\<close> was called on it exactly once.
\<close>

theorem recorded_temp_files_deleted_once:
  "list_all (\<lambda>t. fst t \<notin> fs (batch_page e ups job files) \<and>
                  count_list (unlink_log (batch_page e ups job files)) (fst t) = 1)
     (temp_files (batch_page e ups job files))"
proof (cases "ups = []")
  case True
  then show ?thesis by (simp add: batch_page_def new_page_def)
next
  case False
  obtain st s where run: "batch_body e ups job (new_page files) = (st, s)"
    by (cases "batch_body e ups job (new_page files)")
  define s' where "s' = (case st of Completed \<Rightarrow> s
     | Raised msg \<Rightarrow> s\<lparr>st_errors := st_errors s @ [''Fehler bei der Batch-Analyse: '' @ msg],
                        logged := logged s @ [''batch_analysis'']\<rparr>)"
  have same: "temp_files s' = temp_files s \<and> fs s' = fs s \<and> unlink_log s' = unlink_log s"
    by (cases st) (simp_all add: s'_def)
  have out: "batch_page e ups job files = cleanup (temp_files s) s'"
    using False run by (cases st) (simp_all add: batch_page_def s'_def)
  have "fst t \<notin> fs (cleanup (temp_files s) s') \<and>
        count_list (unlink_log (cleanup (temp_files s) s')) (fst t) = 1"
    if t: "t \<in> set (temp_files s)" for t
  proof -
    have "fst t \<in> fst ` set (temp_files s)" using t by simp
    from batch_body_files [OF run this] this show ?thesis
      by (auto simp: cleanup_fs cleanup_log same)
  qed
  then show ?thesis
    unfolding out by (simp add: list_all_iff cleanup_frame same)
qed

text \<open>
  When the spreadsheet has been read back, \<open>batch_analysis.xlsx\<close> no longer exists at the
  end of the run.
\<close>

theorem spreadsheet_deleted_after_export:
  "excel_data (batch_page e ups job files) = Some wb \<Longrightarrow> xlsx \<notin> fs (batch_page e ups job files)"
proof (cases "ups = []")
  case True
  assume "excel_data (batch_page e ups job files) = Some wb"
  then show ?thesis using True by (simp add: batch_page_def new_page_def)
next
  case False
  assume wb: "excel_data (batch_page e ups job files) = Some wb"
  obtain st s where run: "batch_body e ups job (new_page files) = (st, s)"
    by (cases "batch_body e ups job (new_page files)")
  have out: "excel_data (batch_page e ups job files) = excel_data s \<and>
             fs (batch_page e ups job files) \<subseteq> fs s"
    using False run by (cases st) (auto simp: batch_page_def cleanup_frame cleanup_fs)
  have "xlsx \<notin> fs s"
  proof (cases "save_uploads e ups (new_page files)")
    case (Pair st1 s1)
    have fr1: "excel_data s1 = None"
      using save_uploads_frame [OF Pair] by (simp add: new_page_def)
    show ?thesis
    proof (cases st1)
      case (Raised msg)
      then have "s = s1" using run Pair by (simp add: batch_body_def)
      then show ?thesis using fr1 wb out by simp
    next
      case Completed
      define s2 where "s2 = analysis_loop e job (temp_files s1) s1"
      have x2: "excel_data s2 = None" unfolding s2_def using fr1 by (simp add: analysis_loop_excel)
      show ?thesis
      proof (cases "all_results s2 = []")
        case True
        then have "s = s2" using run Pair Completed by (simp add: batch_body_def s2_def)
        then show ?thesis using x2 wb out by simp
      next
        case False
        define ov where "ov = map overview_of (all_results s2)"
        define s4 where "s4 = (if truthy job then rank e ov (s2\<lparr>overview_df := Some ov\<rparr>)
                              else s2\<lparr>overview_df := Some ov\<rparr>)"
        define s5 where "s5 = s4\<lparr>json_batch_data := Some (json_dumps e (all_results s4))\<rparr>"
        have ex: "excel_export e ov s5 = (st, s)"
          using run Pair Completed False
          by (cases "truthy job")
            (simp_all add: batch_body_def s2_def [symmetric] Let_def ov_def s4_def s5_def)
        have "excel_data s5 = None" using x2 by (simp add: s5_def s4_def rank_frame)
        then show ?thesis
          using excel_export_files [OF ex] wb out by auto
      qed
    qed
  qed
  then show ?thesis using out by blast
qed

theorem spreadsheet_deleted_after_export_witness:
  "excel_data (batch_page demo_env two_uploads None {}) \<noteq> None \<and>
   xlsx \<notin> fs (batch_page demo_env two_uploads None {})"
proof -
  have "excel_data (batch_page demo_env two_uploads None {}) \<noteq> None"
    by (simp add: page_eval demo_eval two_uploads_def str_nat.simps digit_char_def)
  then obtain wb where w: "excel_data (batch_page demo_env two_uploads None {}) = Some wb"
    by auto
  show ?thesis using spreadsheet_deleted_after_export [OF w] w by simp
qed

subsection \<open>C3: temporary files after a batch-level exception\<close>

text \<open>
  Claim C3 against the code. A temporary file exists from the moment
  \<open>NamedTemporaryFile(delete=False)\<close> returns, and its name reaches \<open>temp_files\<close> only after
  \<open>tmp.write\<close> (line 375). When the write of the second of three uploads raises, the
  \<open>finally\<close> deletes the first upload's file, the only one in the list, and the second
  upload's file stays on disk: not every temporary file created for the batch is deleted.
\<close>

theorem temp_file_left_behind_when_write_fails:
  "temp_files (batch_page full_disk_env demo_uploads None {}) = [(''/tmp/tmp.pdf'', ''a.pdf'')] \<and>
   unlink_log (batch_page full_disk_env demo_uploads None {}) = [''/tmp/tmp.pdf''] \<and>
   fs (batch_page full_disk_env demo_uploads None {}) = {''/tmp/tmpx.docx''} \<and>
   st_errors (batch_page full_disk_env demo_uploads None {}) =
     [''Fehler bei der Batch-Analyse: No space left on device'']"
  by (simp add: page_eval demo_eval full_disk_env_def insert_Diff_if)

subsection \<open>C9: the spreadsheet after a batch-level exception\<close>

text \<open>
  Claim C9 against the code. The \<open>os.unlink\<close> of the spreadsheet (lines 504-505) is the
  last statement of the \<open>try\<close> body and the \<open>finally\<close> deletes the uploads' files only.
  When reading the closed spreadsheet back raises, the run ends with one batch-level error,
  both temporary files deleted, and \<open>batch_analysis.xlsx\<close> still on disk.
\<close>

theorem spreadsheet_left_behind_when_read_back_fails:
  "fs (batch_page unreadable_env two_uploads None {}) = {''batch_analysis.xlsx''} \<and>
   unlink_log (batch_page unreadable_env two_uploads None {}) = [''/tmp/tmp.pdf'', ''/tmp/tmpx.pdf''] \<and>
   excel_data (batch_page unreadable_env two_uploads None {}) = None \<and>
   st_errors (batch_page unreadable_env two_uploads None {}) =
     [''Fehler bei der Batch-Analyse: Permission denied'']"
  by (simp add: page_eval demo_eval unreadable_env_def two_uploads_def str_nat.simps digit_char_def insert_Diff_if)

subsection \<open>The structured-text export\<close>

lemma analysis_loop_filenames:
  "list_all (\<lambda>r. filename r \<noteq> None) (all_results s) \<Longrightarrow>
     list_all (\<lambda>r. filename r \<noteq> None) (all_results (analysis_loop e job ts s))"
  by (induction ts arbitrary: s)
    (auto simp: analyze_one_results tagged_result_def split: sum.splits option.splits)

lemma analyze_one_json: "json_batch_data (analyze_one e job t s) = json_batch_data s"
  by (simp add: analyze_one_def Let_def split: sum.splits)

lemma analysis_loop_json: "json_batch_data (analysis_loop e job ts s) = json_batch_data s"
  by (induction ts arbitrary: s) (auto simp: analyze_one_json)

text \<open>
  What the page hands to \<open>json.dumps\<close> (line 465) is the result sequence itself, produced
  exactly when there is a result, and every result in it carries the \<open>filename\<close> key added
  at line 400.
\<close>

lemma batch_page_json_export:
  "list_all (\<lambda>r. filename r \<noteq> None) (all_results (batch_page e ups job files)) \<and>
   json_batch_data (batch_page e ups job files) =
     (if all_results (batch_page e ups job files) = [] then None
      else Some (json_dumps e (all_results (batch_page e ups job files))))"
proof (cases "ups = []")
  case True
  then show ?thesis by (simp add: batch_page_def new_page_def)
next
  case False
  obtain st s where run: "batch_body e ups job (new_page files) = (st, s)"
    by (cases "batch_body e ups job (new_page files)")
  have out: "all_results (batch_page e ups job files) = all_results s \<and>
             json_batch_data (batch_page e ups job files) = json_batch_data s"
    using False run by (cases st) (simp_all add: batch_page_def cleanup_frame)
  have "list_all (\<lambda>r. filename r \<noteq> None) (all_results s) \<and>
        json_batch_data s = (if all_results s = [] then None else Some (json_dumps e (all_results s)))"
  proof (cases "save_uploads e ups (new_page files)")
    case (Pair st1 s1)
    have fr1: "all_results s1 = [] \<and> json_batch_data s1 = None"
      using save_uploads_frame [OF Pair] by (simp add: new_page_def)
    show ?thesis
    proof (cases st1)
      case (Raised msg)
      then have "s = s1" using run Pair by (simp add: batch_body_def)
      then show ?thesis using fr1 by simp
    next
      case Completed
      define s2 where "s2 = analysis_loop e job (temp_files s1) s1"
      have n2: "list_all (\<lambda>r. filename r \<noteq> None) (all_results s2)"
        unfolding s2_def by (rule analysis_loop_filenames) (simp add: fr1)
      have j2: "json_batch_data s2 = None"
        unfolding s2_def using fr1 by (simp add: analysis_loop_json)
      show ?thesis
      proof (cases "all_results s2 = []")
        case True
        then have "s = s2" using run Pair Completed by (simp add: batch_body_def s2_def)
        then show ?thesis using True j2 by simp
      next
        case False
        define ov where "ov = map overview_of (all_results s2)"
        define s4 where "s4 = (if truthy job then rank e ov (s2\<lparr>overview_df := Some ov\<rparr>)
                              else s2\<lparr>overview_df := Some ov\<rparr>)"
        define s5 where "s5 = s4\<lparr>json_batch_data := Some (json_dumps e (all_results s4))\<rparr>"
        have ex: "excel_export e ov s5 = (st, s)"
          using run Pair Completed False
          by (cases "truthy job")
            (simp_all add: batch_body_def s2_def [symmetric] Let_def ov_def s4_def s5_def)
        have f5: "all_results s5 = all_results s2 \<and>
                  json_batch_data s5 = Some (json_dumps e (all_results s2))"
          by (simp add: s5_def s4_def rank_frame)
        show ?thesis using excel_export_frame [OF ex] f5 n2 False by simp
      qed
    qed
  qed
  then show ?thesis using out by simp
qed

subsection \<open>Decimal numerals\<close>

lemma digit_char_is_digit: "d < 10 \<Longrightarrow> is_digit (digit_char d)"
  using ten_cases [of d] by (auto simp: digit_char_def is_digit_def)

lemma str_nat_digits: "list_all is_digit (str_nat n)"
proof (induction n rule: str_nat.induct)
  case (1 n)
  show ?case
  proof (cases "n < 10")
    case True
    then show ?thesis by (subst str_nat.simps) (simp add: digit_char_is_digit)
  next
    case False
    then show ?thesis
      using "1.IH" by (subst str_nat.simps) (simp add: digit_char_is_digit)
  qed
qed

lemma str_nat_nonempty: "str_nat n \<noteq> []"
  by (subst str_nat.simps) simp

lemma length_str_nat_small: "n < 10 \<Longrightarrow> length (str_nat n) = 1"
  by (subst str_nat.simps) simp

lemma hd_str_nat: "10 \<le> n \<Longrightarrow> hd (str_nat n) \<noteq> CHR ''0''"
proof (induction n rule: str_nat.induct)
  case (1 n)
  show ?case
  proof (cases "n div 10 < 10")
    case True
    have pos: "0 < n div 10" using "1.prems" by simp
    have "str_nat (n div 10) = [digit_char (n div 10)]"
      using True by (subst str_nat.simps) simp
    moreover have "digit_char (n div 10) \<noteq> CHR ''0''"
      using ten_cases [OF True] pos by (auto simp: digit_char_def)
    ultimately show ?thesis
      using "1.prems" by (subst str_nat.simps) simp
  next
    case False
    then have "hd (str_nat (n div 10)) \<noteq> CHR ''0''"
      using "1.IH" "1.prems" by simp
    then show ?thesis
      using "1.prems" str_nat_nonempty [of "n div 10"] by (subst str_nat.simps) simp
  qed
qed

lemma str_nat_no_leading_zero: "\<not> (hd (str_nat n) = CHR ''0'' \<and> 1 < length (str_nat n))"
proof (cases "n < 10")
  case True
  then show ?thesis by (simp add: length_str_nat_small)
next
  case False
  then show ?thesis using hd_str_nat [of n] by simp
qed

lemma length_str_nat_le: "n < 10 ^ k \<Longrightarrow> 0 < k \<Longrightarrow> length (str_nat n) \<le> k"
proof (induction n arbitrary: k rule: str_nat.induct)
  case (1 n)
  show ?case
  proof (cases "n < 10")
    case True
    then show ?thesis using "1.prems" by (simp add: length_str_nat_small)
  next
    case False
    obtain j where k: "k = Suc j" using "1.prems"(2) by (cases k) auto
    have "0 < j"
    proof (rule ccontr)
      assume "\<not> 0 < j"
      then have "k = 1" using k by simp
      then show False using "1.prems"(1) False by simp
    qed
    moreover have "n div 10 < 10 ^ j"
      using "1.prems"(1) k by (simp add: less_mult_imp_div_less mult.commute)
    ultimately have "length (str_nat (n div 10)) \<le> j"
      using "1.IH" [of j] False by simp
    then show ?thesis
      using False k by (subst str_nat.simps) simp
  qed
qed

lemma nat_of_digits_zeros: "nat_of_digits (replicate z (CHR ''0'') @ ds) = nat_of_digits ds"
proof -
  have "foldl (\<lambda>a c. 10 * a + (of_char c - 48)) 0 (replicate z (CHR ''0'')) = (0::nat)"
    by (induction z) simp_all
  then show ?thesis by (simp add: nat_of_digits_def)
qed

lemma takeWhile_digits:
  "list_all is_digit ds \<Longrightarrow> (case rest of [] \<Rightarrow> True | c # t \<Rightarrow> \<not> is_digit c) \<Longrightarrow>
     takeWhile is_digit (ds @ rest) = ds \<and> dropWhile is_digit (ds @ rest) = rest"
  by (induction ds) (auto simp: list_all_iff split: list.splits)

subsection \<open>Reading back a number and a string\<close>

lemma digit_not_sign: "is_digit c \<Longrightarrow> c \<noteq> CHR ''-'' \<and> c \<noteq> CHR ''.''"
  by (auto simp: is_digit_def)

lemma decode_number_digits:
  assumes ip: "list_all is_digit ip" "ip \<noteq> []" "\<not> (hd ip = CHR ''0'' \<and> 1 < length ip)"
    and rest: "ends_value rest"
  shows "decode_number ((if neg then ''-'' else '''') @ ip @ rest) =
           Some (JNum ((if neg then - 1 else 1) * int (nat_of_digits ip)) 0, rest)"
proof -
  obtain c cs where ipc: "ip = c # cs" using ip(2) by (cases ip) auto
  have c: "is_digit c" using ip(1) ipc by simp
  have r: "case rest of [] \<Rightarrow> True | c # t \<Rightarrow> \<not> is_digit c"
    using rest by (auto simp: ends_value_def split: list.splits)
  note tw = takeWhile_digits [OF ip(1) r]
  show ?thesis
  proof (cases rest)
    case Nil
    then show ?thesis
      using tw ip(2,3) digit_not_sign [OF c]
      by (cases neg) (simp_all add: decode_number_def Let_def ipc)
  next
    case (Cons d t)
    then have "d \<noteq> CHR ''.''" using rest by (simp add: ends_value_def)
    then show ?thesis
      using tw ip(2,3) digit_not_sign [OF c] Cons
      by (cases neg) (simp_all add: decode_number_def Let_def ipc)
  qed
qed

lemma decode_number_fraction:
  assumes ip: "list_all is_digit ip" "ip \<noteq> []" "\<not> (hd ip = CHR ''0'' \<and> 1 < length ip)"
    and fp: "list_all is_digit fp" "fp \<noteq> []"
    and rest: "ends_value rest"
  shows "decode_number ((if neg then ''-'' else '''') @ ip @ CHR ''.'' # fp @ rest) =
           Some (JNum ((if neg then - 1 else 1) *
                        int (nat_of_digits ip * 10 ^ length fp + nat_of_digits fp)) (length fp), rest)"
proof -
  obtain c cs where ipc: "ip = c # cs" using ip(2) by (cases ip) auto
  have c: "is_digit c" using ip(1) ipc by simp
  have r: "case rest of [] \<Rightarrow> True | c # t \<Rightarrow> \<not> is_digit c"
    using rest by (auto simp: ends_value_def split: list.splits)
  have dot: "case CHR ''.'' # fp @ rest of [] \<Rightarrow> True | c # t \<Rightarrow> \<not> is_digit c"
    by (simp add: is_digit_def)
  note tw1 = takeWhile_digits [OF ip(1) dot]
  note tw2 = takeWhile_digits [OF fp(1) r]
  show ?thesis
    using tw1 tw2 ip(2,3) fp(2) digit_not_sign [OF c]
    by (cases neg) (simp_all add: decode_number_def Let_def ipc)
qed

lemma decode_encode_number:
  assumes "ends_value rest"
  shows "decode_number (encode_number m k @ rest) = Some (JNum m k, rest)"
proof -
  define a where "a = nat \<bar>m\<bar>"
  define neg where "neg = (m < 0)"
  have sign: "(if neg then - 1 else 1) * int a = m"
    by (auto simp: a_def neg_def)
  note ip = str_nat_digits [of "a div 10 ^ k"] str_nat_nonempty [of "a div 10 ^ k"]
    str_nat_no_leading_zero [of "a div 10 ^ k"]
  show ?thesis
  proof (cases "k = 0")
    case True
    have "encode_number m k @ rest = (if neg then ''-'' else '''') @ str_nat a @ rest"
      using True by (simp add: encode_number_def a_def neg_def)
    then show ?thesis
      using decode_number_digits [OF ip assms, of neg] True sign
      by (simp add: nat_of_digits_str_nat)
  next
    case False
    define f where "f = str_nat (a mod 10 ^ k)"
    define fp where "fp = replicate (k - length f) (CHR ''0'') @ f"
    have lf: "length f \<le> k"
      unfolding f_def using False by (intro length_str_nat_le) simp_all
    have len: "length fp = k" using lf by (simp add: fp_def)
    have zero: "is_digit (CHR ''0'')" by (simp add: is_digit_def)
    have dig: "list_all is_digit fp"
      using str_nat_digits [of "a mod 10 ^ k"] zero by (auto simp: fp_def f_def list_all_iff)
    have ne: "fp \<noteq> []" using len False by auto
    have val: "nat_of_digits fp = a mod 10 ^ k"
      by (simp add: fp_def nat_of_digits_zeros f_def nat_of_digits_str_nat)
    have enc: "encode_number m k @ rest =
        (if neg then ''-'' else '''') @ str_nat (a div 10 ^ k) @ CHR ''.'' # fp @ rest"
      using False by (simp add: encode_number_def a_def neg_def fp_def f_def)
    have "(a div 10 ^ k) * 10 ^ k + a mod 10 ^ k = a" by (rule div_mult_mod_eq)
    then show ?thesis
      using decode_number_fraction [OF ip dig ne assms, of neg] sign
      by (simp add: enc len val nat_of_digits_str_nat)
  qed
qed

lemma sixteen_cases:
  "d < 16 \<Longrightarrow> d \<in> {0, 1, 2, 3, 4, 5, 6, 7, 8, 9, 10, 11, 12, 13, 14, 15::nat}"
  by (simp only: insert_iff empty_iff) presburger

lemma hex_value_hex_digit: "d < 16 \<Longrightarrow> hex_value (hex_digit d) = Some d"
  using sixteen_cases [of d] by (auto simp: hex_digit_def hex_value_def)

lemma code_point_escape:
  "code_point (CHR ''0'') (CHR ''0'') (hex_digit (of_char c div 16)) (hex_digit (of_char c mod 16)) =
     Some (of_char c)"
proof -
  have "(of_char c :: nat) div 16 < 16"
    using nat_of_char_less_256 [of c] by (simp add: less_mult_imp_div_less)
  then show ?thesis
    by (simp add: code_point_def hex_value_hex_digit) (simp add: hex_value_def)
qed

lemma decode_string_escape:
  "decode_string (escape_char c @ t) = cons_char c (decode_string t)"
proof -
  consider "c = CHR 0x22" | "c = CHR 0x5C" | "c = CHR 0x0A" | "c = CHR 0x0D" | "c = CHR 0x09"
    | "c = CHR 0x08" | "c = CHR 0x0C"
    | "c \<notin> {CHR 0x22, CHR 0x5C, CHR 0x0A, CHR 0x0D, CHR 0x09, CHR 0x08, CHR 0x0C}"
      "(of_char c :: nat) < 32 \<or> 126 < (of_char c :: nat)"
    | "c \<notin> {CHR 0x22, CHR 0x5C, CHR 0x0A, CHR 0x0D, CHR 0x09, CHR 0x08, CHR 0x0C}"
      "\<not> ((of_char c :: nat) < 32 \<or> 126 < (of_char c :: nat))"
    by blast
  then show ?thesis
  proof cases
    case 8
    then show ?thesis
      using code_point_escape [of c]
      by (simp add: escape_char_def)
  next
    case 9
    then show ?thesis by (simp add: escape_char_def)
  qed (simp_all add: escape_char_def unescape_def)
qed

lemma decode_encode_string:
  "decode_string (concat (map escape_char s) @ CHR 0x22 # rest) = Some (s, rest)"
  by (induction s) (simp_all add: decode_string_escape cons_char_def)

subsection \<open>White space, first characters, dicts and scalars\<close>

lemma skip_ws_newline_indent: "skip_ws (newline_indent l @ s) = skip_ws s"
proof -
  have "dropWhile is_ws (replicate n (CHR '' '') @ s) = dropWhile is_ws s" for n
    by (induction n) (simp_all add: is_ws_def)
  then show ?thesis by (simp add: skip_ws_def newline_indent_def is_ws_def)
qed

lemma skip_ws_space: "skip_ws (CHR '' '' # s) = skip_ws s"
  by (simp add: skip_ws_def is_ws_def)

lemma skip_ws_stop: "\<not> is_ws c \<Longrightarrow> skip_ws (c # s) = c # s"
  by (simp add: skip_ws_def)

lemma decode_skip: "skip_ws s = skip_ws s' \<Longrightarrow> decode n s = decode n s'"
  by (cases n) simp_all

lemma decode_more_skip: "skip_ws s = skip_ws s' \<Longrightarrow> decode_more n acc s = decode_more n acc s'"
  by (cases n) simp_all

lemma decode_more_members_skip:
  "skip_ws s = skip_ws s' \<Longrightarrow> decode_more_members n acc s = decode_more_members n acc s'"
  by (cases n) simp_all

lemma starts_value_plain:
  "starts_value c \<Longrightarrow> \<not> is_ws c \<and> c \<noteq> CHR '']'' \<and> c \<noteq> CHR ''}'' \<and> c \<noteq> CHR '','' \<and> c \<noteq> CHR '':''"
  by (auto simp: starts_value_def is_ws_def is_digit_def)

lemma encode_number_first: "\<exists>c t. encode_number m k = c # t \<and> (c = CHR ''-'' \<or> is_digit c)"
proof (cases "m < 0")
  case True
  then show ?thesis by (simp add: encode_number_def)
next
  case False
  obtain c cs where s: "str_nat (nat \<bar>m\<bar> div 10 ^ k) = c # cs"
    using str_nat_nonempty [of "nat \<bar>m\<bar> div 10 ^ k"] by (cases "str_nat (nat \<bar>m\<bar> div 10 ^ k)") auto
  have "is_digit c" using str_nat_digits [of "nat \<bar>m\<bar> div 10 ^ k"] s by simp
  then show ?thesis using False s by (simp add: encode_number_def)
qed

lemma encode_first: "\<exists>c t. encode l v = c # t \<and> starts_value c"
proof (cases v)
  case (JNum m k)
  then show ?thesis using encode_number_first [of m k] by (auto simp: starts_value_def)
next
  case (JArr xs)
  then show ?thesis by (cases xs) (simp_all add: starts_value_def)
next
  case (JObj kvs)
  then show ?thesis by (cases kvs) (simp_all add: starts_value_def)
qed (simp_all add: starts_value_def encode_string_def)

lemma update_new: "k \<notin> fst ` set al \<Longrightarrow> AList.update k v al = al @ [(k, v)]"
  by (induction al) auto

lemma py_dict_fold:
  "distinct (map fst (acc @ kvs)) \<Longrightarrow>
     foldl (\<lambda>d kv. AList.update (fst kv) (snd kv) d) acc kvs = acc @ kvs"
proof (induction kvs arbitrary: acc)
  case Nil
  then show ?case by simp
next
  case (Cons kv kvs)
  have new: "fst kv \<notin> fst ` set acc" using Cons.prems by auto
  have "distinct (map fst ((acc @ [kv]) @ kvs))" using Cons.prems by simp
  from Cons.IH [OF this] show ?case by (simp add: update_new [OF new])
qed

lemma py_dict_distinct: "distinct (map fst kvs) \<Longrightarrow> py_dict kvs = kvs"
  using py_dict_fold [of "[]" kvs] by (simp add: py_dict_def)

lemma ends_value_sep: "ends_value (CHR '','' # s)" "ends_value (newline_indent l @ s)" "ends_value []"
  by (simp_all add: ends_value_def newline_indent_def is_digit_def)

lemma decode_null: "decode (Suc n) (''null'' @ rest) = Some (JNull, rest)"
  by (simp add: skip_ws_def is_ws_def strip_prefix_def)

lemma decode_bool: "decode (Suc n) ((if b then ''true'' else ''false'') @ rest) = Some (JBool b, rest)"
  by (simp add: skip_ws_def is_ws_def strip_prefix_def)

lemma decode_str: "decode (Suc n) (encode_string s @ rest) = Some (JStr s, rest)"
  by (simp add: encode_string_def skip_ws_def is_ws_def decode_encode_string)

lemma decode_num:
  assumes "ends_value rest"
  shows "decode (Suc n) (encode_number m k @ rest) = Some (JNum m k, rest)"
proof -
  obtain c t where e: "encode_number m k = c # t" and c: "c = CHR ''-'' \<or> is_digit c"
    using encode_number_first [of m k] by auto
  have "\<not> is_ws c \<and> c \<noteq> CHR ''['' \<and> c \<noteq> CHR ''{'' \<and> c \<noteq> CHR 0x22 \<and> c \<noteq> CHR ''n'' \<and>
        c \<noteq> CHR ''t'' \<and> c \<noteq> CHR ''f''"
    using c by (auto simp: is_ws_def is_digit_def)
  then have "decode (Suc n) (c # t @ rest) = decode_number (c # t @ rest)"
    by (simp add: skip_ws_stop)
  then show ?thesis
    using decode_encode_number [OF assms, of m k] e by simp
qed

subsection \<open>Reading back a value\<close>

lemma ends_value_more: "ends_value (encode_more l xs @ newline_indent l' @ s)"
  by (cases xs) (simp_all add: ends_value_def newline_indent_def is_digit_def)

lemma ends_value_more_members: "ends_value (encode_more_members l kvs @ newline_indent l' @ s)"
  by (cases kvs) (simp_all add: ends_value_def newline_indent_def is_digit_def)

lemma skip_ws_value: "skip_ws (newline_indent l0 @ encode l x @ R) = encode l x @ R"
proof -
  obtain c t where e: "encode l x = c # t" and c: "starts_value c"
    using encode_first [of l x] by auto
  show ?thesis using starts_value_plain [OF c] by (simp add: skip_ws_newline_indent e skip_ws_stop)
qed

lemma decode_value_after_ws:
  "decode n (newline_indent l0 @ encode l x @ R) = decode n (encode l x @ R)"
  by (rule decode_skip) (simp add: skip_ws_newline_indent)

lemma decode_open_array:
  assumes "decode n (encode l x @ R) = Some (x, R)"
    and "decode_more n [x] R = Some (xs', rest)"
  shows "decode (Suc n) (CHR ''['' # newline_indent l0 @ encode l x @ R) = Some (JArr xs', rest)"
proof -
  obtain c t where e: "encode l x = c # t" and c: "starts_value c"
    using encode_first [of l x] by auto
  have sk: "skip_ws (newline_indent l0 @ encode l x @ R) = c # t @ R"
    using skip_ws_value [of l0 l x R] e by simp
  have open_ws: "skip_ws (CHR ''['' # s) = CHR ''['' # s" for s
    by (simp add: skip_ws_def is_ws_def)
  show ?thesis
    using starts_value_plain [OF c] assms
    by (simp add: open_ws sk decode_value_after_ws)
qed

lemma decode_more_step:
  assumes "decode n (encode l x @ R) = Some (x, R)"
  shows "decode_more (Suc n) acc (CHR '','' # newline_indent l0 @ encode l x @ R) =
           decode_more n (acc @ [x]) R"
proof -
  have comma: "skip_ws (CHR '','' # s) = CHR '','' # s" for s
    by (simp add: skip_ws_def is_ws_def)
  show ?thesis using assms by (simp add: comma decode_value_after_ws)
qed

lemma decode_more_close:
  "decode_more (Suc n) acc (newline_indent l0 @ CHR '']'' # rest) = Some (acc, rest)"
proof -
  have "skip_ws (newline_indent l0 @ CHR '']'' # rest) = CHR '']'' # rest"
    by (simp add: skip_ws_newline_indent) (simp add: skip_ws_def is_ws_def)
  then show ?thesis by simp
qed

lemma decode_more_members_close:
  "decode_more_members (Suc n) acc (newline_indent l0 @ CHR ''}'' # rest) = Some (acc, rest)"
proof -
  have "skip_ws (newline_indent l0 @ CHR ''}'' # rest) = CHR ''}'' # rest"
    by (simp add: skip_ws_newline_indent) (simp add: skip_ws_def is_ws_def)
  then show ?thesis by simp
qed

lemma skip_ws_key:
  "skip_ws (newline_indent l0 @ encode_string k @ s) = CHR 0x22 # concat (map escape_char k) @ CHR 0x22 # s"
  by (simp add: skip_ws_newline_indent encode_string_def) (simp add: skip_ws_def is_ws_def)

lemma decode_member_value:
  "decode n ('' '' @ encode l v @ R) = decode n (encode l v @ R)"
  by (rule decode_skip) (simp add: skip_ws_space)

lemma decode_open_object:
  assumes "decode n (encode l v @ R) = Some (v, R)"
    and "decode_more_members n [(k, v)] R = Some (kvs', rest)"
  shows "decode (Suc n) (CHR ''{'' # newline_indent l0 @ encode_string k @ '': '' @ encode l v @ R) =
           Some (JObj (py_dict kvs'), rest)"
proof -
  have open_ws: "skip_ws (CHR ''{'' # s) = CHR ''{'' # s" for s
    by (simp add: skip_ws_def is_ws_def)
  have colon: "skip_ws (CHR '':'' # s) = CHR '':'' # s" for s
    by (simp add: skip_ws_def is_ws_def)
  have val: "decode n (CHR '' '' # encode l v @ R) = Some (v, R)"
    using decode_member_value [of n l v R] assms(1) by simp
  show ?thesis
    using assms(2) skip_ws_key [of l0 k "'': '' @ encode l v @ R"]
    by (simp add: open_ws decode_encode_string colon val)
qed

lemma decode_more_members_step:
  assumes "decode n (encode l v @ R) = Some (v, R)"
  shows "decode_more_members (Suc n) acc
           (CHR '','' # newline_indent l0 @ encode_string k @ '': '' @ encode l v @ R) =
         decode_more_members n (acc @ [(k, v)]) R"
proof -
  have comma: "skip_ws (CHR '','' # s) = CHR '','' # s" for s
    by (simp add: skip_ws_def is_ws_def)
  have colon: "skip_ws (CHR '':'' # s) = CHR '':'' # s" for s
    by (simp add: skip_ws_def is_ws_def)
  have val: "decode n (CHR '' '' # encode l v @ R) = Some (v, R)"
    using decode_member_value [of n l v R] assms(1) by simp
  show ?thesis
    using skip_ws_key [of l0 k "'': '' @ encode l v @ R"]
    by (simp add: comma decode_encode_string colon val)
qed

lemma decode_empty_array: "decode (Suc n) (''[]'' @ rest) = Some (JArr [], rest)"
  by (simp add: skip_ws_def is_ws_def)

lemma decode_empty_object: "decode (Suc n) (''{}'' @ rest) = Some (JObj [], rest)"
  by (simp add: skip_ws_def is_ws_def)

lemma decode_encode:
  "need v \<le> n \<Longrightarrow> unique_keys v \<Longrightarrow> ends_value rest \<Longrightarrow>
     decode n (encode l v @ rest) = Some (v, rest)"
  "need_more xs \<le> n \<Longrightarrow> unique_keys_list xs \<Longrightarrow>
     decode_more n acc (encode_more l xs @ newline_indent l' @ CHR '']'' # rest) = Some (acc @ xs, rest)"
  "need_more_members kvs \<le> n \<Longrightarrow> unique_keys_members kvs \<Longrightarrow>
     decode_more_members n accm (encode_more_members l kvs @ newline_indent l' @ CHR ''}'' # rest) =
       Some (accm @ kvs, rest)"
proof (induction l v and l xs and l kvs arbitrary: n rest and n acc rest l' and n accm rest l'
    rule: encode_encode_more_encode_more_members.induct)
  case (1 level)
  then obtain m where "n = Suc m" by (cases n) auto
  then show ?case using decode_null [of m rest] by simp
next
  case (2 level b)
  then obtain m where "n = Suc m" by (cases n) auto
  then show ?case using decode_bool [of m b rest] by simp
next
  case (3 level m k)
  then obtain j where "n = Suc j" by (cases n) auto
  then show ?case using decode_num [OF 3(3), of j m k] by simp
next
  case (4 level s)
  then obtain m where "n = Suc m" by (cases n) auto
  then show ?case using decode_str [of m s rest] by simp
next
  case (5 level)
  then obtain m where "n = Suc m" by (cases n) auto
  then show ?case using decode_empty_array [of m rest] by simp
next
  case (6 level x xs)
  from 6(3) obtain m where n: "n = Suc m" and le: "need x + need_more xs \<le> m"
    by (cases n) auto
  define R where "R = encode_more (Suc level) xs @ newline_indent level @ CHR '']'' # rest"
  have ev: "ends_value R" unfolding R_def by (rule ends_value_more)
  have a: "decode m (encode (Suc level) x @ R) = Some (x, R)"
    using 6(1) [of m R] le 6(4) ev by simp
  have b: "decode_more m [x] R = Some ([x] @ xs, rest)"
    unfolding R_def using 6(2) [of m "[x]" level rest] le 6(4) by simp
  show ?case
    using decode_open_array [OF a b, of "Suc level"] by (simp add: n R_def)
next
  case (7 level)
  then obtain m where "n = Suc m" by (cases n) auto
  then show ?case using decode_empty_object [of m rest] by simp
next
  case (8 level kv kvs)
  from 8(3) obtain m where n: "n = Suc m" and le: "need (snd kv) + need_more_members kvs \<le> m"
    by (cases n) auto
  define R where "R = encode_more_members (Suc level) kvs @ newline_indent level @ CHR ''}'' # rest"
  have ev: "ends_value R" unfolding R_def by (rule ends_value_more_members)
  have a: "decode m (encode (Suc level) (snd kv) @ R) = Some (snd kv, R)"
    using 8(1) [of m R] le 8(4) ev by simp
  have b: "decode_more_members m [(fst kv, snd kv)] R = Some ([(fst kv, snd kv)] @ kvs, rest)"
    unfolding R_def using 8(2) [of m "[(fst kv, snd kv)]" level rest] le 8(4) by simp
  have d: "py_dict (kv # kvs) = kv # kvs"
    using 8(4) by (intro py_dict_distinct) simp
  show ?case
    using decode_open_object [OF a b, of "Suc level"] d by (simp add: n R_def)
next
  case (9 level)
  then obtain m where "n = Suc m" by (cases n) auto
  then show ?case using decode_more_close [of m acc l' rest] by simp
next
  case (10 level x xs)
  from 10(3) obtain m where n: "n = Suc m" and le: "need x + need_more xs \<le> m"
    by (cases n) auto
  define R where "R = encode_more level xs @ newline_indent l' @ CHR '']'' # rest"
  have ev: "ends_value R" unfolding R_def by (rule ends_value_more)
  have a: "decode m (encode level x @ R) = Some (x, R)"
    using 10(1) [of m R] le 10(4) ev by simp
  have b: "decode_more m (acc @ [x]) R = Some ((acc @ [x]) @ xs, rest)"
    unfolding R_def using 10(2) [of m "acc @ [x]" l' rest] le 10(4) by simp
  show ?case
    using decode_more_step [OF a, of acc level] b by (simp add: n R_def)
next
  case (11 level)
  then obtain m where "n = Suc m" by (cases n) auto
  then show ?case using decode_more_members_close [of m accm l' rest] by simp
next
  case (12 level kv kvs)
  from 12(3) obtain m where n: "n = Suc m" and le: "need (snd kv) + need_more_members kvs \<le> m"
    by (cases n) auto
  define R where "R = encode_more_members level kvs @ newline_indent l' @ CHR ''}'' # rest"
  have ev: "ends_value R" unfolding R_def by (rule ends_value_more_members)
  have a: "decode m (encode level (snd kv) @ R) = Some (snd kv, R)"
    using 12(1) [of m R] le 12(4) ev by simp
  have b: "decode_more_members m (accm @ [(fst kv, snd kv)]) R =
             Some ((accm @ [(fst kv, snd kv)]) @ kvs, rest)"
    unfolding R_def using 12(2) [of m "accm @ [(fst kv, snd kv)]" l' rest] le 12(4) by simp
  show ?case
    using decode_more_members_step [OF a, of accm level "fst kv"] b by (simp add: n R_def)
qed

lemma length_newline_indent: "0 < length (newline_indent l)"
  by (simp add: newline_indent_def)

lemma need_le_length:
  "need v \<le> length (encode l v)"
  "need_more xs \<le> Suc (length (encode_more l xs))"
  "need_more_members kvs \<le> Suc (length (encode_more_members l kvs))"
proof (induction l v and l xs and l kvs rule: encode_encode_more_encode_more_members.induct)
  case (3 level m k)
  obtain c t where "encode_number m k = c # t" using encode_number_first [of m k] by auto
  then show ?case by simp
next
  case (4 level s)
  then show ?case by (simp add: encode_string_def)
next
  case (6 level x xs)
  then show ?case using length_newline_indent [of level] length_newline_indent [of "Suc level"] by simp
next
  case (8 level kv kvs)
  then show ?case using length_newline_indent [of level] length_newline_indent [of "Suc level"] by simp
next
  case (10 level x xs)
  then show ?case using length_newline_indent [of level] by simp
next
  case (12 level kv kvs)
  then show ?case using length_newline_indent [of level] by simp
qed simp_all

lemma json_loads_encode: "unique_keys v \<Longrightarrow> json_loads (encode 0 v) = Some v"
proof -
  assume u: "unique_keys v"
  have "need v \<le> Suc (length (encode 0 v))" using need_le_length(1) [of v 0] by simp
  from decode_encode(1) [OF this u ends_value_sep(3), of 0]
  show ?thesis by (simp add: json_loads_def skip_ws_def)
qed

subsection \<open>Reading back the results\<close>

lemma decimal_places_sound:
  "decimal_places fuel k r = Some j \<Longrightarrow> of_int \<lfloor>r * 10 ^ j\<rfloor> = r * 10 ^ j"
  by (induction fuel arbitrary: k) (auto split: if_splits)

lemma number_round_trip:
  assumes "number_clean r"
  shows "number_of_json (json_number r) = Some r"
proof -
  obtain j where j: "decimal_places (nat (snd (quotient_of r))) 0 r = Some j"
    using assms by (auto simp: number_clean_def decimal_of_def split: option.splits)
  have "of_int \<lfloor>r * 10 ^ j\<rfloor> / (10 ^ j :: rat) = r * 10 ^ j / 10 ^ j"
    by (simp only: decimal_places_sound [OF j])
  then have "of_int \<lfloor>r * 10 ^ j\<rfloor> / 10 ^ j = r" by simp
  then show ?thesis by (simp add: json_number_def decimal_of_def j)
qed

lemma unique_keys_number: "unique_keys (json_number r)"
  by (simp add: json_number_def split: option.splits)

lemma those_map_inverse:
  "list_all (\<lambda>x. rd (wr x) = Some x) xs \<Longrightarrow> those (map (\<lambda>x. rd (wr x)) xs) = Some xs"
  by (induction xs) simp_all

lemma list_round_trip:
  "list_all (\<lambda>x. rd (wr x) = Some x) xs \<Longrightarrow> list_of_json rd (JArr (map wr xs)) = Some xs"
  using those_map_inverse [of rd wr xs] by (simp add: comp_def)

lemma dict_round_trip:
  "list_all (\<lambda>kv. number_clean (snd kv)) d \<Longrightarrow> dict_of_json (json_of_dict d) = Some d"
  by (induction d) (simp_all add: json_of_dict_def number_round_trip comp_def)

lemma unique_keys_list_map: "unique_keys_list (map f xs) = list_all (\<lambda>x. unique_keys (f x)) xs"
  by (induction xs) simp_all

lemma unique_keys_members_append:
  "unique_keys_members (xs @ ys) = (unique_keys_members xs \<and> unique_keys_members ys)"
  by (induction xs) simp_all

lemma unique_keys_member:
  "unique_keys_members (json_member key wr field) = (case field of None \<Rightarrow> True | Some x \<Rightarrow> unique_keys (wr x))"
  by (simp add: json_member_def split: option.splits)

lemma unique_keys_dict: "distinct (map fst d) \<Longrightarrow> unique_keys (json_of_dict d)"
proof -
  have "unique_keys_members (map (\<lambda>kv. (fst kv, json_number (snd kv))) d)"
    by (induction d) (simp_all add: unique_keys_number)
  moreover assume "distinct (map fst d)"
  ultimately show ?thesis by (simp add: json_of_dict_def comp_def)
qed

lemma unique_keys_strings: "unique_keys (JArr (map JStr xs))"
  by (simp add: unique_keys_list_map list_all_iff)

lemma map_of_member:
  "map_of (json_member key wr field @ others) k =
     (if k = key then (case field of None \<Rightarrow> map_of others k | Some x \<Rightarrow> Some (wr x))
      else map_of others k)"
  by (cases field) (simp_all add: json_member_def)

lemma map_of_last_member:
  "map_of (json_member key wr field) k =
     (if k = key then (case field of None \<Rightarrow> None | Some x \<Rightarrow> Some (wr x)) else None)"
  by (simp add: json_member_def split: option.splits)

lemma map_fst_member: "map fst (json_member key wr field) = (case field of None \<Rightarrow> [] | Some x \<Rightarrow> [key])"
  by (simp add: json_member_def split: option.splits)

lemma entry_round_trip:
  assumes "clean_if_present number_clean (duration x)"
  shows "entry_of_json (json_of_entry x) = Some x"
proof (cases "duration x")
  case None
  then show ?thesis
    by (simp add: json_of_entry_def required_def optional_def json_member_def)
next
  case (Some d)
  then have "number_of_json (json_number d) = Some d"
    using assms by (simp add: clean_if_present_def number_round_trip)
  then show ?thesis using Some
    by (simp add: json_of_entry_def required_def optional_def json_member_def)
qed

lemma unique_keys_entry: "unique_keys (json_of_entry x)"
  by (cases "duration x") (simp_all add: json_of_entry_def json_member_def unique_keys_number)

lemma entries_round_trip:
  assumes "list_all (\<lambda>x. clean_if_present number_clean (duration x)) xs"
  shows "list_of_json entry_of_json (JArr (map json_of_entry xs)) = Some xs"
proof (rule list_round_trip)
  show "list_all (\<lambda>x. entry_of_json (json_of_entry x) = Some x) xs"
    using assms by (induction xs) (simp_all add: entry_round_trip)
qed

lemma unique_keys_entries: "unique_keys (JArr (map json_of_entry xs))"
  by (simp add: unique_keys_list_map unique_keys_entry list_all_iff)

lemma strings_round_trip: "list_of_json string_of_json (JArr (map JStr xs)) = Some xs"
  by (rule list_round_trip) (simp add: list_all_iff)

lemma optional_absent:
  "map_of kvs key = None \<Longrightarrow> optional rd key kvs = Some None"
  by (simp add: optional_def)

lemma optional_present:
  "map_of kvs key = Some v \<Longrightarrow> rd v = Some x \<Longrightarrow> optional rd key kvs = Some (Some x)"
  by (simp add: optional_def)

lemma optional_member:
  assumes "map_of kvs key = (case field of None \<Rightarrow> None | Some x \<Rightarrow> Some (wr x))"
    and "case field of None \<Rightarrow> True | Some x \<Rightarrow> rd (wr x) = Some x"
  shows "optional rd key kvs = Some field"
  using assms by (cases field) (simp_all add: optional_def)

lemma clean_if_present_simps:
  "clean_if_present ok None = True"
  "clean_if_present ok (Some x) = ok x"
  by (simp_all add: clean_if_present_def)

lemma result_round_trip:
  assumes "result_clean r"
  shows "result_of_json (json_of_result r) = Some r"
proof -
  define kvs where "kvs =
     json_member ''profession'' JStr (profession r) @
     json_member ''experience_level'' JStr (experience_level r) @
     json_member ''relevance_score'' json_number (relevance_score r) @
     json_member ''skills'' json_of_dict (skills r) @
     json_member ''experience'' (\<lambda>xs. JArr (map json_of_entry xs)) (experience r) @
     json_member ''missing_skills'' json_of_dict (missing_skills r) @
     json_member ''recommendations'' (\<lambda>xs. JArr (map JStr xs)) (recommendations r) @
     json_member ''filename'' JStr (filename r)"
  note look = kvs_def map_of_member map_of_last_member
  have f: "optional string_of_json ''filename'' kvs = Some (filename r)"
  proof (rule optional_member [where wr = JStr])
    show "map_of kvs ''filename'' = (case filename r of None \<Rightarrow> None | Some x \<Rightarrow> Some (JStr x))"
      by (simp add: look del: map_of_append)
  qed (simp split: option.splits)
  have p: "optional string_of_json ''profession'' kvs = Some (profession r)"
  proof (rule optional_member [where wr = JStr])
    show "map_of kvs ''profession'' = (case profession r of None \<Rightarrow> None | Some x \<Rightarrow> Some (JStr x))"
      by (simp add: look del: map_of_append split: option.splits)
  qed (simp split: option.splits)
  have l: "optional string_of_json ''experience_level'' kvs = Some (experience_level r)"
  proof (rule optional_member [where wr = JStr])
    show "map_of kvs ''experience_level'' =
            (case experience_level r of None \<Rightarrow> None | Some x \<Rightarrow> Some (JStr x))"
      by (simp add: look del: map_of_append split: option.splits)
  qed (simp split: option.splits)
  have sc: "optional number_of_json ''relevance_score'' kvs = Some (relevance_score r)"
  proof (rule optional_member [where wr = json_number])
    show "map_of kvs ''relevance_score'' =
            (case relevance_score r of None \<Rightarrow> None | Some x \<Rightarrow> Some (json_number x))"
      by (simp add: look del: map_of_append split: option.splits)
    show "case relevance_score r of None \<Rightarrow> True
          | Some x \<Rightarrow> number_of_json (json_number x) = Some x"
      using assms
      by (cases "relevance_score r")
        (simp_all add: result_clean_def clean_if_present_simps number_round_trip)
  qed
  have sk: "optional dict_of_json ''skills'' kvs = Some (skills r)"
  proof (rule optional_member [where wr = json_of_dict])
    show "map_of kvs ''skills'' =
            (case skills r of None \<Rightarrow> None | Some x \<Rightarrow> Some (json_of_dict x))"
      by (simp add: look del: map_of_append split: option.splits)
    show "case skills r of None \<Rightarrow> True | Some x \<Rightarrow> dict_of_json (json_of_dict x) = Some x"
      using assms
      by (cases "skills r")
        (simp_all add: result_clean_def clean_if_present_simps dict_clean_def dict_round_trip)
  qed
  have ex: "optional (list_of_json entry_of_json) ''experience'' kvs = Some (experience r)"
  proof (rule optional_member [where wr = "\<lambda>xs. JArr (map json_of_entry xs)"])
    show "map_of kvs ''experience'' =
            (case experience r of None \<Rightarrow> None | Some x \<Rightarrow> Some (JArr (map json_of_entry x)))"
      by (simp add: look del: map_of_append split: option.splits)
    show "case experience r of None \<Rightarrow> True
          | Some x \<Rightarrow> list_of_json entry_of_json (JArr (map json_of_entry x)) = Some x"
    proof (cases "experience r")
      case None
      then show ?thesis by simp
    next
      case (Some xs)
      then have "list_all (\<lambda>x. clean_if_present number_clean (duration x)) xs"
        using assms by (simp add: result_clean_def clean_if_present_simps)
      then show ?thesis using Some by (simp only: entries_round_trip option.case)
    qed
  qed
  have ms: "optional dict_of_json ''missing_skills'' kvs = Some (missing_skills r)"
  proof (rule optional_member [where wr = json_of_dict])
    show "map_of kvs ''missing_skills'' =
            (case missing_skills r of None \<Rightarrow> None | Some x \<Rightarrow> Some (json_of_dict x))"
      by (simp add: look del: map_of_append split: option.splits)
    show "case missing_skills r of None \<Rightarrow> True
          | Some x \<Rightarrow> dict_of_json (json_of_dict x) = Some x"
      using assms
      by (cases "missing_skills r")
        (simp_all add: result_clean_def clean_if_present_simps dict_clean_def dict_round_trip)
  qed
  have rc: "optional (list_of_json string_of_json) ''recommendations'' kvs = Some (recommendations r)"
  proof (rule optional_member [where wr = "\<lambda>xs. JArr (map JStr xs)"])
    show "map_of kvs ''recommendations'' =
            (case recommendations r of None \<Rightarrow> None | Some x \<Rightarrow> Some (JArr (map JStr x)))"
      by (simp add: look del: map_of_append split: option.splits)
    show "case recommendations r of None \<Rightarrow> True
          | Some x \<Rightarrow> list_of_json string_of_json (JArr (map JStr x)) = Some x"
      by (cases "recommendations r") (simp_all only: strings_round_trip option.case)
  qed
  have "json_of_result r = JObj kvs" by (simp add: json_of_result_def kvs_def)
  then show ?thesis by (simp add: f p l sc sk ex ms rc)
qed

lemma unique_keys_result:
  assumes "result_clean r"
  shows "unique_keys (json_of_result r)"
proof -
  have d: "distinct (map fst
     (json_member ''profession'' JStr (profession r) @
      json_member ''experience_level'' JStr (experience_level r) @
      json_member ''relevance_score'' json_number (relevance_score r) @
      json_member ''skills'' json_of_dict (skills r) @
      json_member ''experience'' (\<lambda>xs. JArr (map json_of_entry xs)) (experience r) @
      json_member ''missing_skills'' json_of_dict (missing_skills r) @
      json_member ''recommendations'' (\<lambda>xs. JArr (map JStr xs)) (recommendations r) @
      json_member ''filename'' JStr (filename r)))"
    by (simp add: map_fst_member split: option.splits)
  have sk: "case skills r of None \<Rightarrow> True | Some x \<Rightarrow> unique_keys (json_of_dict x)"
    using assms
    by (cases "skills r")
      (simp_all add: result_clean_def clean_if_present_simps dict_clean_def unique_keys_dict)
  have ms: "case missing_skills r of None \<Rightarrow> True | Some x \<Rightarrow> unique_keys (json_of_dict x)"
    using assms
    by (cases "missing_skills r")
      (simp_all add: result_clean_def clean_if_present_simps dict_clean_def unique_keys_dict)
  have ex: "case experience r of None \<Rightarrow> True | Some x \<Rightarrow> unique_keys (JArr (map json_of_entry x))"
    using unique_keys_entries by (simp split: option.splits)
  have rc: "case recommendations r of None \<Rightarrow> True | Some x \<Rightarrow> unique_keys (JArr (map JStr x))"
    using unique_keys_strings by (simp split: option.splits)
  have sc: "case relevance_score r of None \<Rightarrow> True | Some x \<Rightarrow> unique_keys (json_number x)"
    by (simp add: unique_keys_number split: option.splits)
  have st: "(case f of None \<Rightarrow> True | Some x \<Rightarrow> unique_keys (JStr x))" for f
    by (simp split: option.splits)
  show ?thesis
    unfolding json_of_result_def unique_keys.simps
    using d sk ms ex rc sc
    by (simp only: unique_keys_members_append unique_keys_member st simp_thms)
qed

lemma loads_dumps:
  assumes "list_all result_clean rs"
  shows "loads (dumps rs) = Some rs"
proof -
  have u: "unique_keys (JArr (map json_of_result rs))"
    using assms by (simp add: unique_keys_list_map list_all_iff unique_keys_result)
  have "list_all (\<lambda>r. result_of_json (json_of_result r) = Some r) rs"
    using assms by (simp add: list_all_iff result_round_trip)
  then have "list_of_json result_of_json (JArr (map json_of_result rs)) = Some rs"
    by (rule list_round_trip)
  then show ?thesis
    using json_loads_encode [OF u] by (simp add: loads_def dumps_def)
qed

subsection \<open>C8: reading the export back\<close>

text \<open>The layout of an export: one result with a score and the file name.\<close>

lemma dumps_layout:
  "dumps [\<lparr>filename = Some ''a.pdf'', profession = None, experience_level = None,
           relevance_score = Some (171 / 2), skills = None, experience = None,
           missing_skills = None, recommendations = Some []\<rparr>] =
   ''['' @ [CHR 0x0A] @
   ''  {'' @ [CHR 0x0A] @
   ''    '' @ [CHR 0x22] @ ''relevance_score'' @ [CHR 0x22] @ '': 85.5,'' @ [CHR 0x0A] @
   ''    '' @ [CHR 0x22] @ ''recommendations'' @ [CHR 0x22] @ '': [],'' @ [CHR 0x0A] @
   ''    '' @ [CHR 0x22] @ ''filename'' @ [CHR 0x22] @ '': '' @ [CHR 0x22] @ ''a.pdf'' @ [CHR 0x22] @ [CHR 0x0A] @
   ''  }'' @ [CHR 0x0A] @
   '']''"
proof -
  have d: "decimal_of (171 / 2) = Some (855, 1)" by code_simp
  have r: "replicate 2 c = [c, c]" "replicate 4 c = [c, c, c, c]" for c :: char
    by (simp_all add: numeral_eq_Suc)
  show ?thesis
    by (simp add: dumps_def json_of_result_def json_member_def json_number_def d newline_indent_def
        encode_string_def encode_number_def escape_char_def str_nat.simps digit_char_def r)
qed

text \<open>A run of the page in \<open>json_env\<close>: two of the three uploads are analysed.\<close>

lemma json_env_results:
  "all_results (batch_page json_env demo_uploads None {}) =
     [(demo_result (Some (171 / 2)))
        \<lparr>skills := Some [(''python'', 9), (''sql'', 7 / 2)], filename := Some ''a.pdf''\<rparr>,
      (demo_result (Some (171 / 2)))
        \<lparr>skills := Some [(''python'', 9), (''sql'', 7 / 2)], filename := Some ''c.pdf''\<rparr>]"
  by (simp add: page_eval demo_eval json_env_def scored_analyze_def)

lemma decimal_of_examples:
  "decimal_of (171 / 2) = Some (855, 1)" "decimal_of 9 = Some (9, 0)"
  "decimal_of (7 / 2) = Some (35, 1)" "decimal_of 4 = Some (4, 0)"
  by code_simp+

text \<open>
  Claim C8. The export is the library's dump, indented by two spaces, of the result sequence
  itself, every result of which carries the \<open>filename\<close> the page added, and reading the
  exported text back yields that sequence again. The library is the one written out above
  (\<open>json_dumps e = dumps\<close>), and the results are Python values: their numbers are finite
  decimals and the keys of their dicts differ (\<open>result_clean\<close>).
\<close>

theorem json_export_round_trips:
  assumes "json_dumps e = dumps"
    and "list_all result_clean (all_results (batch_page e ups job files))"
  shows "json_batch_data (batch_page e ups job files) =
           (if all_results (batch_page e ups job files) = [] then None
            else Some (dumps (all_results (batch_page e ups job files)))) \<and>
         loads (dumps (all_results (batch_page e ups job files))) =
           Some (all_results (batch_page e ups job files)) \<and>
         list_all (\<lambda>r. filename r \<noteq> None) (all_results (batch_page e ups job files))"
  using batch_page_json_export [of e ups job files] loads_dumps [OF assms(2)] assms(1)
  by simp

theorem json_export_round_trips_witness:
  "json_dumps json_env = dumps \<and>
   list_all result_clean (all_results (batch_page json_env demo_uploads None {})) \<and>
   map filename (all_results (batch_page json_env demo_uploads None {})) =
     [Some ''a.pdf'', Some ''c.pdf''] \<and>
   map relevance_score (all_results (batch_page json_env demo_uploads None {})) =
     [Some (171 / 2), Some (171 / 2)] \<and>
   json_batch_data (batch_page json_env demo_uploads None {}) =
     Some (dumps (all_results (batch_page json_env demo_uploads None {}))) \<and>
   loads (dumps (all_results (batch_page json_env demo_uploads None {}))) =
     Some (all_results (batch_page json_env demo_uploads None {}))"
proof -
  have lib: "json_dumps json_env = dumps" by (simp add: json_env_def)
  have clean: "list_all result_clean (all_results (batch_page json_env demo_uploads None {}))"
    unfolding json_env_results
    by (simp add: result_clean_def clean_if_present_def dict_clean_def number_clean_def
        demo_result_def demo_entry_def decimal_of_examples)
  have names: "map filename (all_results (batch_page json_env demo_uploads None {})) =
                 [Some ''a.pdf'', Some ''c.pdf'']"
    unfolding json_env_results by simp
  have scores: "map relevance_score (all_results (batch_page json_env demo_uploads None {})) =
                 [Some (171 / 2), Some (171 / 2)]"
    unfolding json_env_results by (simp add: demo_result_def)
  have some: "all_results (batch_page json_env demo_uploads None {}) \<noteq> []"
    unfolding json_env_results by simp
  show ?thesis
    using lib clean names scores some json_export_round_trips [OF lib clean] by simp
qed

end
